theory Spec2Isabelle
  imports Complex_Main "HOL-Library.Word" "HOL-Library.Sublist" "HOL-Library.Multiset"
    "HOL-Library.Log_Nat"
begin

section \<open>The on-chain program \<^verbatim>\<open>contracts/rumble.rs\<close>\<close>

subsection \<open>Data\<close>

text \<open>
  A \<^verbatim>\<open>Pubkey\<close> is an opaque 32-byte identity; only equality is used on it.
  \<^verbatim>\<open>u64\<close>, \<^verbatim>\<open>u32\<close> and \<^verbatim>\<open>i64\<close> are machine words.
\<close>

type_synonym Pubkey = nat
type_synonym u64 = "64 word"
type_synonym u32 = "32 word"
type_synonym i64 = "64 word"

record Player =
  key :: Pubkey
  deposit :: u64
  trading_score :: u32
  last_active :: i64

record GameState =
  total_deposits :: u64
  prize_pool :: u64
  active :: bool
  players :: "Player list"
  winners :: "Player list"
  game_id :: Pubkey

record AccountInfo =
  acc_key :: Pubkey
  lamports :: u64

text \<open>
  \<^verbatim>\<open>RumbleError\<close> as declared, with two more outcomes a handler can end in:
  \<open>ProgramError\<close> for a failure handed up by \<^verbatim>\<open>?\<close> from the runtime
  (\<^verbatim>\<open>Clock::get()\<close>, the token burner), and \<open>Panic\<close> for an arithmetic overflow
  of \<^verbatim>\<open>*\<close> or \<^verbatim>\<open>+=\<close> in a build with overflow checks.
\<close>

datatype RumbleError =
  InvalidDeposit
  | NoDeposits
  | GameAlreadyActive
  | Overflow
  | DivisionByZero
  | WinnerAccountNotFound
  | GameNotActive
  | ProgramError
  | Panic

record DepositEvent =
  de_player :: Pubkey
  de_amount :: u64
  de_timestamp :: i64

record TradingEvaluationEvent =
  te_game_id :: Pubkey
  te_timestamp :: i64

record WinnersSelectedEvent =
  ws_game_id :: Pubkey
  ws_winners :: "Pubkey list"
  ws_prize_per_winner :: u64
  ws_buyback_amount :: u64
  ws_timestamp :: i64

record GameResetEvent =
  gr_game_id :: Pubkey
  gr_timestamp :: i64

text \<open>
  What a handler reads from outside the accounts: the clock sysvar (\<open>None\<close> when
  \<^verbatim>\<open>Clock::get()\<close> fails), whether the token burner accepts an amount, and whether
  the build has \<^verbatim>\<open>overflow-checks\<close> switched on (the manifest is not part of the
  sources, so both settings are covered).
\<close>

record Env =
  clock :: "i64 option"
  burn_ok :: "u64 \<Rightarrow> bool"
  overflow_checks :: bool

subsection \<open>Ledger arithmetic\<close>

definition checked_add :: "u64 \<Rightarrow> u64 \<Rightarrow> u64 option" where
  "checked_add a b = (if unat a + unat b < 2 ^ 64 then Some (a + b) else None)"

definition checked_div :: "u64 \<Rightarrow> u64 \<Rightarrow> u64 option" where
  "checked_div a b = (if b = 0 then None else Some (a div b))"

text \<open>Plain \<^verbatim>\<open>*\<close> and \<^verbatim>\<open>+=\<close> on \<^verbatim>\<open>u64\<close>: a panic or a wrap-around past \<open>2^64 - 1\<close>.\<close>

definition u64_mul :: "bool \<Rightarrow> u64 \<Rightarrow> u64 \<Rightarrow> RumbleError + u64" where
  "u64_mul oc a b =
     (if oc \<and> \<not> unat a * unat b < 2 ^ 64 then Inl Panic else Inr (a * b))"

definition u64_add :: "bool \<Rightarrow> u64 \<Rightarrow> u64 \<Rightarrow> RumbleError + u64" where
  "u64_add oc a b =
     (if oc \<and> \<not> unat a + unat b < 2 ^ 64 then Inl Panic else Inr (a + b))"

subsection \<open>The winner count \<^verbatim>\<open>((total_players as f64) * 0.10).ceil() as usize\<close>\<close>

text \<open>
  The count is computed in binary64. A positive double is a 53-bit significand times a
  power of two, so the model keeps every intermediate value as an exact natural
  numerator: \<open>f64_round q\<close> rounds \<open>q\<close> to 53 significant bits, ties to even (the
  value of \<open>q\<close> as a double, when \<open>q\<close> counts units of a fixed power of two).
  The literal \<^verbatim>\<open>0.10\<close> is the double \<open>3602879701896397 / 2^55\<close>.
\<close>

function f64_shift :: "nat \<Rightarrow> nat" where
  "f64_shift q = (if q < 2 ^ 53 then 0 else Suc (f64_shift (q div 2)))"
  by pat_completeness auto
termination
  by (relation "measure (\<lambda>q. q)") auto

declare f64_shift.simps [simp del]

definition f64_round :: "nat \<Rightarrow> nat" where
  "f64_round q =
     (let s = f64_shift q; m = q div 2 ^ s; r = q mod 2 ^ s
      in if s = 0 then q
         else if 2 ^ (s - 1) < r \<or> (r = 2 ^ (s - 1) \<and> odd m) then (m + 1) * 2 ^ s
         else m * 2 ^ s)"

definition tenth_f64 :: nat where
  "tenth_f64 = 3602879701896397"

definition num_winners_of :: "nat \<Rightarrow> nat" where
  "num_winners_of total_players =
     (let x = f64_round total_players;
          y = f64_round (x * tenth_f64)
      in (y + (2 ^ 55 - 1)) div 2 ^ 55)"

subsection \<open>Sorting\<close>

text \<open>
  \<^verbatim>\<open>sort_by\<close> is a stable sort: elements the comparator calls equal keep their order.
  The model is the stable insertion sort, with the comparator as a "comes strictly
  before" test: the head of the list goes in front of the first element of the sorted
  rest that does not come strictly before it. \<open>by_score_desc a b\<close> is
  \<^verbatim>\<open>|a, b| b.trading_score.cmp(&a.trading_score)\<close> answering \<^verbatim>\<open>Less\<close>.
\<close>

fun insert_by :: "('a \<Rightarrow> 'a \<Rightarrow> bool) \<Rightarrow> 'a \<Rightarrow> 'a list \<Rightarrow> 'a list" where
  "insert_by lt x [] = [x]"
| "insert_by lt x (y # ys) = (if lt y x then y # insert_by lt x ys else x # y # ys)"

fun sort_by :: "('a \<Rightarrow> 'a \<Rightarrow> bool) \<Rightarrow> 'a list \<Rightarrow> 'a list" where
  "sort_by lt [] = []"
| "sort_by lt (x # xs) = insert_by lt x (sort_by lt xs)"

definition by_score_desc :: "Player \<Rightarrow> Player \<Rightarrow> bool" where
  "by_score_desc a b = (trading_score b < trading_score a)"

subsection \<open>Instruction handlers\<close>

text \<open>
  A handler works on \<^verbatim>\<open>&mut\<close> accounts and returns \<^verbatim>\<open>Result<()>\<close>. The model returns
  the result (the emitted event on \<^verbatim>\<open>Ok\<close>) together with the accounts as they stand in
  memory when the handler returns, so that a mutation made before an early return is
  visible.
\<close>

definition initialize :: "Pubkey \<Rightarrow> GameState \<Rightarrow> (RumbleError + unit) \<times> GameState" where
  "initialize game_account game_state =
     (Inr (),
      game_state\<lparr>total_deposits := 0, active := False, players := [], winners := [],
        game_id := game_account, prize_pool := 0\<rparr>)"

text \<open>\<^verbatim>\<open>players.iter_mut().find(|p| p.key == player)\<close> and the update of what it finds.\<close>

fun find_player :: "Pubkey \<Rightarrow> Player list \<Rightarrow> Player option" where
  "find_player k [] = None"
| "find_player k (p # ps) = (if key p = k then Some p else find_player k ps)"

fun update_player :: "Pubkey \<Rightarrow> (Player \<Rightarrow> Player) \<Rightarrow> Player list \<Rightarrow> Player list" where
  "update_player k f [] = []"
| "update_player k f (p # ps) = (if key p = k then f p # ps else p # update_player k f ps)"

definition deposit_ix ::
  "Env \<Rightarrow> Pubkey \<Rightarrow> u64 \<Rightarrow> GameState \<Rightarrow> (RumbleError + DepositEvent) \<times> GameState" where
  "deposit_ix env player amount game_state =
     (if \<not> 0 < amount then (Inl InvalidDeposit, game_state)
      else
        let after_player =
          (case find_player player (players game_state) of
             Some existing \<Rightarrow>
               (case checked_add (deposit existing) amount of
                  None \<Rightarrow> Inl Overflow
                | Some d \<Rightarrow>
                    Inr (game_state\<lparr>players :=
                      update_player player (\<lambda>p. p\<lparr>deposit := d\<rparr>) (players game_state)\<rparr>))
           | None \<Rightarrow>
               (case clock env of
                  None \<Rightarrow> Inl ProgramError
                | Some now \<Rightarrow>
                    Inr (game_state\<lparr>players := players game_state @
                      [\<lparr>key = player, deposit = amount, trading_score = 0,
                        last_active = now\<rparr>]\<rparr>)))
        in case after_player of
             Inl e \<Rightarrow> (Inl e, game_state)
           | Inr gs1 \<Rightarrow>
               (case checked_add (total_deposits gs1) amount of
                  None \<Rightarrow> (Inl Overflow, gs1)
                | Some t \<Rightarrow>
                    let gs2 = gs1\<lparr>total_deposits := t\<rparr>;
                        gs3 = gs2\<lparr>prize_pool := total_deposits gs2\<rparr>
                    in case clock env of
                         None \<Rightarrow> (Inl ProgramError, gs3)
                       | Some now \<Rightarrow>
                           (Inr \<lparr>de_player = player, de_amount = amount,
                                 de_timestamp = now\<rparr>, gs3)))"

fun set_scores :: "Env \<Rightarrow> (Pubkey \<times> u32) list \<Rightarrow> Player list \<Rightarrow> (RumbleError + unit) \<times> Player list" where
  "set_scores env [] ps = (Inr (), ps)"
| "set_scores env ((player_key, score) # rest) ps =
     (case find_player player_key ps of
        None \<Rightarrow> set_scores env rest ps
      | Some _ \<Rightarrow>
          let ps1 = update_player player_key (\<lambda>p. p\<lparr>trading_score := score\<rparr>) ps
          in case clock env of
               None \<Rightarrow> (Inl ProgramError, ps1)
             | Some now \<Rightarrow>
                 set_scores env rest
                   (update_player player_key (\<lambda>p. p\<lparr>last_active := now\<rparr>) ps1))"

definition evaluate_trading_activity ::
  "Env \<Rightarrow> (Pubkey \<times> u32) list \<Rightarrow> GameState \<Rightarrow> (RumbleError + TradingEvaluationEvent) \<times> GameState" where
  "evaluate_trading_activity env scores game_state =
     (case set_scores env scores (players game_state) of
        (Inl e, ps) \<Rightarrow> (Inl e, game_state\<lparr>players := ps\<rparr>)
      | (Inr _, ps) \<Rightarrow>
          let gs1 = game_state\<lparr>players := ps\<rparr>
          in case clock env of
               None \<Rightarrow> (Inl ProgramError, gs1)
             | Some now \<Rightarrow> (Inr \<lparr>te_game_id = game_id gs1, te_timestamp = now\<rparr>, gs1))"

text \<open>
  The payout loop: for each winner the first account with the winner's key is credited;
  a winner with no account ends the handler with \<^verbatim>\<open>WinnerAccountNotFound\<close>.
\<close>

fun credit :: "bool \<Rightarrow> Pubkey \<Rightarrow> u64 \<Rightarrow> AccountInfo list \<Rightarrow> RumbleError + AccountInfo list" where
  "credit oc k amt [] = Inl WinnerAccountNotFound"
| "credit oc k amt (a # as) =
     (if acc_key a = k then
        (case u64_add oc (lamports a) amt of
           Inl e \<Rightarrow> Inl e
         | Inr v \<Rightarrow> Inr (a\<lparr>lamports := v\<rparr> # as))
      else
        (case credit oc k amt as of
           Inl e \<Rightarrow> Inl e
         | Inr as' \<Rightarrow> Inr (a # as')))"

fun pay_winners ::
  "bool \<Rightarrow> u64 \<Rightarrow> Player list \<Rightarrow> AccountInfo list \<Rightarrow> (RumbleError + unit) \<times> AccountInfo list" where
  "pay_winners oc amt [] accs = (Inr (), accs)"
| "pay_winners oc amt (w # ws) accs =
     (case credit oc (key w) amt accs of
        Inl e \<Rightarrow> (Inl e, accs)
      | Inr accs' \<Rightarrow> pay_winners oc amt ws accs')"

definition select_winners ::
  "Env \<Rightarrow> AccountInfo list \<Rightarrow> GameState \<Rightarrow>
     (RumbleError + WinnersSelectedEvent) \<times> GameState \<times> AccountInfo list" where
  "select_winners env winner_accounts game_state =
     (if \<not> 0 < total_deposits game_state then (Inl NoDeposits, game_state, winner_accounts)
      else if active game_state then (Inl GameAlreadyActive, game_state, winner_accounts)
      else
        let total_players = length (players game_state);
            num_winners = num_winners_of total_players;
            sorted_players = sort_by by_score_desc (players game_state);
            ws = take num_winners sorted_players;
            gs1 = game_state\<lparr>winners := ws\<rparr>;
            pool = prize_pool gs1
        in case u64_mul (overflow_checks env) pool 90 of
             Inl e \<Rightarrow> (Inl e, gs1, winner_accounts)
           | Inr p90 \<Rightarrow>
        let prize_for_winners = p90 div 100
        in case u64_mul (overflow_checks env) pool 10 of
             Inl e \<Rightarrow> (Inl e, gs1, winner_accounts)
           | Inr p10 \<Rightarrow>
        let buyback_amount = p10 div 100
        in case checked_div prize_for_winners (of_nat num_winners) of
             None \<Rightarrow> (Inl DivisionByZero, gs1, winner_accounts)
           | Some prize_per_winner \<Rightarrow>
        (case pay_winners (overflow_checks env) prize_per_winner ws winner_accounts of
           (Inl e, accs) \<Rightarrow> (Inl e, gs1, accs)
         | (Inr _, accs) \<Rightarrow>
             if \<not> burn_ok env buyback_amount then (Inl ProgramError, gs1, accs)
             else
               (case clock env of
                  None \<Rightarrow> (Inl ProgramError, gs1, accs)
                | Some now \<Rightarrow>
                    (Inr \<lparr>ws_game_id = game_id gs1, ws_winners = map key ws,
                          ws_prize_per_winner = prize_per_winner,
                          ws_buyback_amount = buyback_amount, ws_timestamp = now\<rparr>,
                     gs1\<lparr>total_deposits := 0, prize_pool := 0, active := True\<rparr>,
                     accs))))"

definition reset_game :: "Env \<Rightarrow> GameState \<Rightarrow> (RumbleError + GameResetEvent) \<times> GameState" where
  "reset_game env game_state =
     (if \<not> active game_state then (Inl GameNotActive, game_state)
      else
        let gs1 = game_state\<lparr>active := False, players := [], winners := [],
                    total_deposits := 0, prize_pool := 0\<rparr>
        in case clock env of
             None \<Rightarrow> (Inl ProgramError, gs1)
           | Some now \<Rightarrow> (Inr \<lparr>gr_game_id = game_id gs1, gr_timestamp = now\<rparr>, gs1))"

subsection \<open>Instructions against the stored account\<close>

text \<open>
  The game state lives in an account. An instruction whose handler returns \<^verbatim>\<open>Err\<close>
  aborts its transaction: the account keeps the data it had before the instruction.
  Only a handler that returns \<^verbatim>\<open>Ok\<close> has its in-memory state written back.
  \<open>process\<close> is one instruction against the stored game state.
\<close>

datatype Instruction =
  Deposit Pubkey u64
  | EvaluateTradingActivity "(Pubkey \<times> u32) list"
  | SelectWinners "AccountInfo list"
  | ResetGame

fun handler_state :: "Env \<Rightarrow> Instruction \<Rightarrow> GameState \<Rightarrow> bool \<times> GameState" where
  "handler_state env (Deposit player amount) gs =
     (case deposit_ix env player amount gs of (r, gs') \<Rightarrow> (isl r, gs'))"
| "handler_state env (EvaluateTradingActivity scores) gs =
     (case evaluate_trading_activity env scores gs of (r, gs') \<Rightarrow> (isl r, gs'))"
| "handler_state env (SelectWinners accs) gs =
     (case select_winners env accs gs of (r, gs', _) \<Rightarrow> (isl r, gs'))"
| "handler_state env ResetGame gs =
     (case reset_game env gs of (r, gs') \<Rightarrow> (isl r, gs'))"

definition process :: "Env \<Rightarrow> Instruction \<Rightarrow> GameState \<Rightarrow> GameState" where
  "process env ix gs = (case handler_state env ix gs of (failed, gs') \<Rightarrow> if failed then gs else gs')"

text \<open>The states a game account can be in: after \<^verbatim>\<open>initialize\<close>, then any instructions.\<close>

inductive reachable :: "GameState \<Rightarrow> bool" where
  reachable_init: "reachable (snd (initialize game_account gs0))"
| reachable_step: "reachable gs \<Longrightarrow> reachable (process env ix gs)"

section \<open>The backend \<^verbatim>\<open>GameService\<close>\<close>

text \<open>
  The service keeps its state in three repositories: one row per game, the player rows
  and the winner rows. Amounts are JavaScript \<^verbatim>\<open>number\<close>s, on which nothing is checked;
  \<^verbatim>\<open>Math.ceil(players.length * 0.10)\<close> is the binary64 computation of \<open>num_winners_of\<close>.
\<close>

subsection \<open>JavaScript numbers\<close>

text \<open>
  A \<^verbatim>\<open>number\<close> is a binary64 value: a finite one is the rational it denotes, and there
  are the two infinities and \<^verbatim>\<open>NaN\<close>. The two zeros are one value here: the only
  divisor of the service that can be zero is \<^verbatim>\<open>Math.ceil(0 * 0.10)\<close>, which is \<open>+0\<close>.
\<close>

datatype js_number = Num rat | PosInfinity | NegInfinity | NaN

text \<open>The binary exponent of a positive rational: \<open>2 ^ ilog2 q \<le> q < 2 ^ (ilog2 q + 1)\<close>.\<close>

definition ilog2 :: "rat \<Rightarrow> int" where
  "ilog2 q = (if 1 \<le> q then int (floorlog 2 (nat \<lfloor>q\<rfloor>)) - 1
              else - int (floorlog 2 (nat (\<lceil>1 / q\<rceil> - 1))))"

definition round_half_even :: "rat \<Rightarrow> int" where
  "round_half_even s =
     (let m = \<lfloor>s\<rfloor>; f = s - of_int m
      in if 1 / 2 < f \<or> (f = 1 / 2 \<and> odd m) then m + 1 else m)"

text \<open>
  The result of every arithmetic operation is the exact result rounded to the nearest
  value with a 53-bit significand and an exponent of at least \<open>- 1022\<close> (ties to the even
  significand); what rounds to \<open>2 ^ 1024\<close> or more is infinite.
\<close>

definition f64_of_pos :: "rat \<Rightarrow> js_number" where
  "f64_of_pos q =
     (let p = max (ilog2 q) (- 1022) - 52;
          r = of_int (round_half_even (q / 2 powi p)) * 2 powi p
      in if 2 ^ 1024 \<le> r then PosInfinity else Num r)"

fun js_neg :: "js_number \<Rightarrow> js_number" where
  "js_neg (Num q) = Num (- q)"
| "js_neg PosInfinity = NegInfinity"
| "js_neg NegInfinity = PosInfinity"
| "js_neg NaN = NaN"

definition f64_of_rat :: "rat \<Rightarrow> js_number" where
  "f64_of_rat q =
     (if q = 0 then Num 0 else if 0 < q then f64_of_pos q else js_neg (f64_of_pos (- q)))"

text \<open>The sign of a number that is not \<^verbatim>\<open>NaN\<close>.\<close>

fun js_sign :: "js_number \<Rightarrow> int" where
  "js_sign (Num q) = (if 0 < q then 1 else if q < 0 then - 1 else 0)"
| "js_sign PosInfinity = 1"
| "js_sign NegInfinity = - 1"
| "js_sign NaN = 0"

definition js_infinity :: "int \<Rightarrow> js_number" where
  "js_infinity sg = (if 0 < sg then PosInfinity else NegInfinity)"

text \<open>\<^verbatim>\<open>x + y\<close>, \<^verbatim>\<open>x * y\<close>, \<^verbatim>\<open>x / y\<close> and \<^verbatim>\<open>Math.floor(x)\<close>.\<close>

fun js_add :: "js_number \<Rightarrow> js_number \<Rightarrow> js_number" where
  "js_add (Num a) (Num b) = f64_of_rat (a + b)"
| "js_add NaN y = NaN"
| "js_add x NaN = NaN"
| "js_add PosInfinity NegInfinity = NaN"
| "js_add NegInfinity PosInfinity = NaN"
| "js_add PosInfinity y = PosInfinity"
| "js_add NegInfinity y = NegInfinity"
| "js_add x PosInfinity = PosInfinity"
| "js_add x NegInfinity = NegInfinity"

fun js_mul :: "js_number \<Rightarrow> js_number \<Rightarrow> js_number" where
  "js_mul (Num a) (Num b) = f64_of_rat (a * b)"
| "js_mul NaN y = NaN"
| "js_mul x NaN = NaN"
| "js_mul x y =
     (if js_sign x * js_sign y = 0 then NaN else js_infinity (js_sign x * js_sign y))"

fun js_div :: "js_number \<Rightarrow> js_number \<Rightarrow> js_number" where
  "js_div (Num a) (Num b) =
     (if b = 0 then (if a = 0 then NaN else js_infinity (js_sign (Num a)))
      else f64_of_rat (a / b))"
| "js_div NaN y = NaN"
| "js_div x NaN = NaN"
| "js_div (Num a) y = Num 0"
| "js_div x (Num b) = js_infinity (js_sign x * (if b < 0 then - 1 else 1))"
| "js_div x y = NaN"

fun js_floor :: "js_number \<Rightarrow> js_number" where
  "js_floor (Num q) = Num (of_int \<lfloor>q\<rfloor>)"
| "js_floor x = x"

subsection \<open>Repositories\<close>

record TsGame =
  gameId :: string
  totalDeposits :: js_number
  prizePool :: js_number
  active_ts :: bool

record TsPlayer =
  key_ts :: string
  deposit_ts :: js_number
  tradingScore :: int
  game_ts :: string

record TsWinner =
  w_playerKey :: string
  w_prize :: js_number
  w_game :: string

record Db =
  gameStates :: "TsGame list"
  playerRows :: "TsPlayer list"
  winnerRows :: "TsWinner list"

text \<open>
  A call ends in \<open>Error msg\<close> when the service throws \<^verbatim>\<open>new Error(msg)\<close> and in
  \<open>Rejected\<close> when an awaited repository write rejects. Whether the successive
  writes of one call resolve is an input: a list of outcomes, consumed one per write
  (every write after the end of the list resolves).
\<close>

datatype TsError = Error string | Rejected

type_synonym io = "bool list"

fun write_ok :: "io \<Rightarrow> bool" where
  "write_ok [] = True"
| "write_ok (b # _) = b"

text \<open>The first element that satisfies a test, updated in place.\<close>

fun update_first :: "('a \<Rightarrow> bool) \<Rightarrow> ('a \<Rightarrow> 'a) \<Rightarrow> 'a list \<Rightarrow> 'a list" where
  "update_first P f [] = []"
| "update_first P f (x # xs) = (if P x then f x # xs else x # update_first P f xs)"

definition save_game :: "TsGame \<Rightarrow> Db \<Rightarrow> Db" where
  "save_game g db =
     db\<lparr>gameStates :=
       (case find (\<lambda>r. gameId r = gameId g) (gameStates db) of
          None \<Rightarrow> gameStates db @ [g]
        | Some _ \<Rightarrow> update_first (\<lambda>r. gameId r = gameId g) (\<lambda>_. g) (gameStates db))\<rparr>"

definition save_player :: "TsPlayer \<Rightarrow> Db \<Rightarrow> Db" where
  "save_player p db =
     db\<lparr>playerRows :=
       (case find (\<lambda>r. key_ts r = key_ts p \<and> game_ts r = game_ts p) (playerRows db) of
          None \<Rightarrow> playerRows db @ [p]
        | Some _ \<Rightarrow>
            update_first (\<lambda>r. key_ts r = key_ts p \<and> game_ts r = game_ts p) (\<lambda>_. p)
              (playerRows db))\<rparr>"

definition save_winner :: "TsWinner \<Rightarrow> Db \<Rightarrow> Db" where
  "save_winner w db = db\<lparr>winnerRows := winnerRows db @ [w]\<rparr>"

text \<open>\<^verbatim>\<open>game.players\<close>, as loaded by \<^verbatim>\<open>relations: ['players']\<close>.\<close>

definition game_players :: "string \<Rightarrow> Db \<Rightarrow> TsPlayer list" where
  "game_players gid db = filter (\<lambda>r. game_ts r = gid) (playerRows db)"

definition not_active_msg :: string where
  "not_active_msg = ''Game is not active or does not exist.''"

definition ts_deposit :: "io \<Rightarrow> string \<Rightarrow> js_number \<Rightarrow> string \<Rightarrow> Db \<Rightarrow> (TsError + unit) \<times> Db" where
  "ts_deposit io playerKey amount gid db =
     (case find (\<lambda>g. gameId g = gid) (gameStates db) of
        None \<Rightarrow> (Inl (Error not_active_msg), db)
      | Some game \<Rightarrow>
          if active_ts game then (Inl (Error not_active_msg), db)
          else
            let player =
              (case find (\<lambda>r. key_ts r = playerKey \<and> game_ts r = gid) (playerRows db) of
                 Some p \<Rightarrow> p\<lparr>deposit_ts := js_add (deposit_ts p) amount\<rparr>
               | None \<Rightarrow> \<lparr>key_ts = playerKey, deposit_ts = amount, tradingScore = 0,
                           game_ts = gid\<rparr>)
            in if \<not> write_ok io then (Inl Rejected, db)
               else
                 let db1 = save_player player db;
                     game1 = game\<lparr>totalDeposits := js_add (totalDeposits game) amount\<rparr>;
                     game2 = game1\<lparr>prizePool := totalDeposits game1\<rparr>
                 in if \<not> write_ok (tl io) then (Inl Rejected, db1)
                    else (Inr (), save_game game2 db1))"

text \<open>
  \<^verbatim>\<open>evaluateTradingActivities\<close>: the scores come from the scoring service; each one whose
  key is found among the game's players overwrites that player's \<^verbatim>\<open>tradingScore\<close> and
  saves the row.
\<close>

fun ts_set_scores :: "io \<Rightarrow> string \<Rightarrow> (string \<times> int) list \<Rightarrow> Db \<Rightarrow> (TsError + unit) \<times> Db" where
  "ts_set_scores io gid [] db = (Inr (), db)"
| "ts_set_scores io gid ((k, score) # rest) db =
     (case find (\<lambda>r. key_ts r = k) (game_players gid db) of
        None \<Rightarrow> ts_set_scores io gid rest db
      | Some player \<Rightarrow>
          if \<not> write_ok io then (Inl Rejected, db)
          else ts_set_scores (tl io) gid rest
                 (save_player (player\<lparr>tradingScore := score\<rparr>) db))"

definition evaluateTradingActivities ::
  "io \<Rightarrow> (string \<times> int) list \<Rightarrow> string \<Rightarrow> Db \<Rightarrow> (TsError + unit) \<times> Db" where
  "evaluateTradingActivities io scores gid db =
     (case find (\<lambda>g. gameId g = gid) (gameStates db) of
        None \<Rightarrow> (Inl (Error ''Game not found.''), db)
      | Some game \<Rightarrow> ts_set_scores io gid scores db)"

text \<open>\<^verbatim>\<open>(a, b) => b.tradingScore - a.tradingScore\<close> negative: \<open>a\<close> sorts before \<open>b\<close>.\<close>

definition by_tradingScore_desc :: "TsPlayer \<Rightarrow> TsPlayer \<Rightarrow> bool" where
  "by_tradingScore_desc a b = (tradingScore b - tradingScore a < 0)"

fun save_winners :: "io \<Rightarrow> TsWinner list \<Rightarrow> Db \<Rightarrow> (TsError + io) \<times> Db" where
  "save_winners io [] db = (Inr io, db)"
| "save_winners io (w # ws) db =
     (if \<not> write_ok io then (Inl Rejected, db)
      else save_winners (tl io) ws (save_winner w db))"

text \<open>
  With no player \<^verbatim>\<open>numWinners\<close> is 0 and \<^verbatim>\<open>prizePerWinner\<close> is infinite or \<^verbatim>\<open>NaN\<close>;
  no winner row is created from it then. The result on success is the returned winner
  list together with the \<^verbatim>\<open>buybackAmount\<close> handed to \<^verbatim>\<open>buybackAndBurnTokens\<close> and to
  the emitted event.
\<close>

definition selectWinners ::
  "io \<Rightarrow> string \<Rightarrow> Db \<Rightarrow> (TsError + TsWinner list \<times> js_number) \<times> Db" where
  "selectWinners io gid db =
     (case find (\<lambda>g. gameId g = gid) (gameStates db) of
        None \<Rightarrow> (Inl (Error not_active_msg), db)
      | Some game \<Rightarrow>
          if active_ts game then (Inl (Error not_active_msg), db)
          else
            let numWinners = num_winners_of (length (game_players gid db));
                sortedPlayers = sort_by by_tradingScore_desc (game_players gid db);
                topPlayers = take numWinners sortedPlayers;
                pool = prizePool game;
                prizeForWinners = js_floor (js_div (js_mul pool (Num 90)) (Num 100));
                buybackAmount = js_floor (js_div (js_mul pool (Num 10)) (Num 100));
                prizePerWinner = js_floor (js_div prizeForWinners (Num (of_nat numWinners)));
                winners = map (\<lambda>player. \<lparr>w_playerKey = key_ts player, w_prize = prizePerWinner,
                                          w_game = gid\<rparr>) topPlayers
            in case save_winners io winners db of
                 (Inl e, db1) \<Rightarrow> (Inl e, db1)
               | (Inr io1, db1) \<Rightarrow>
                   if \<not> write_ok io1 then (Inl Rejected, db1)
                   else (Inr (winners, buybackAmount),
                         save_game (game\<lparr>active_ts := True, prizePool := Num 0\<rparr>) db1))"

subsection \<open>Sample data\<close>

text \<open>A well-behaved environment, the zeroed account \<^verbatim>\<open>init\<close> allocates, and a one-player game.\<close>

definition env_ok :: Env where
  "env_ok = \<lparr>clock = Some 7, burn_ok = (\<lambda>_. True), overflow_checks = True\<rparr>"

definition zeroed :: GameState where
  "zeroed = \<lparr>total_deposits = 0, prize_pool = 0, active = False, players = [],
     winners = [], game_id = 0\<rparr>"

definition fresh_game :: GameState where
  "fresh_game = snd (initialize 99 zeroed)"

definition one_player_game :: GameState where
  "one_player_game = process env_ok (Deposit 1 5) fresh_game"

definition winner_account_1 :: AccountInfo where
  "winner_account_1 = \<lparr>acc_key = 1, lamports = 0\<rparr>"

definition one_player_event :: WinnersSelectedEvent where
  "one_player_event =
     \<lparr>ws_game_id = 99, ws_winners = [1], ws_prize_per_winner = 4, ws_buyback_amount = 0,
       ws_timestamp = 7\<rparr>"

definition settled_game :: GameState where
  "settled_game = process env_ok (SelectWinners [winner_account_1]) one_player_game"

text \<open>The same round in the backend's repositories, before and after settlement.\<close>

definition ts_game :: TsGame where
  "ts_game = \<lparr>gameId = ''g'', totalDeposits = Num 5, prizePool = Num 5, active_ts = False\<rparr>"

definition ts_player :: TsPlayer where
  "ts_player = \<lparr>key_ts = ''a'', deposit_ts = Num 5, tradingScore = 0, game_ts = ''g''\<rparr>"

definition ts_winner :: TsWinner where
  "ts_winner = \<lparr>w_playerKey = ''a'', w_prize = Num 4, w_game = ''g''\<rparr>"

definition ts_one_player :: Db where
  "ts_one_player = \<lparr>gameStates = [ts_game], playerRows = [ts_player], winnerRows = []\<rparr>"

definition ts_settled :: Db where
  "ts_settled =
     \<lparr>gameStates = [ts_game\<lparr>active_ts := True, prizePool := Num 0\<rparr>],
      playerRows = [ts_player], winnerRows = [ts_winner]\<rparr>"

definition two_accounts :: "AccountInfo list" where
  "two_accounts = [\<lparr>acc_key = 1, lamports = 0\<rparr>, \<lparr>acc_key = 2, lamports = 0\<rparr>]"

text \<open>Two players with scores 1 and 2, and two players with the same score 5.\<close>

definition ranked_game :: GameState where
  "ranked_game =
     process env_ok (EvaluateTradingActivity [(1, 1), (2, 2)])
       (process env_ok (Deposit 2 5) (process env_ok (Deposit 1 5) fresh_game))"

definition tied_game :: GameState where
  "tied_game =
     process env_ok (EvaluateTradingActivity [(2, 5), (1, 5)])
       (process env_ok (Deposit 1 5) (process env_ok (Deposit 2 5) fresh_game))"

subsection \<open>The ranking key of the specification\<close>

text \<open>
  The specification ranks by a weighted sum of four sub-scores on a common scale, with
  weights 0.40, 0.30, 0.20 and 0.10 (here in hundredths). The program stores the activity
  score only; the other three signals are given from outside, per participant.
\<close>

record Signals =
  holdings_score :: nat
  speed_score :: nat
  random_factor :: nat

definition spec_composite :: "Signals \<Rightarrow> nat \<Rightarrow> nat" where
  "spec_composite sg activity_score_normalized =
     40 * holdings_score sg + 30 * activity_score_normalized + 20 * speed_score sg +
     10 * random_factor sg"

definition spec_composite_of :: "(Pubkey \<Rightarrow> Signals) \<Rightarrow> Player \<Rightarrow> nat" where
  "spec_composite_of signals p = spec_composite (signals (key p)) (unat (trading_score p))"

text \<open>Participant 1 holds the most; nothing else tells the two participants apart.\<close>

definition sample_signals :: "Pubkey \<Rightarrow> Signals" where
  "sample_signals k =
     \<lparr>holdings_score = (if k = 1 then 100 else 0), speed_score = 0, random_factor = 0\<rparr>"

text \<open>The settlement of either two-player round pays participant 2.\<close>

definition two_event :: WinnersSelectedEvent where
  "two_event =
     \<lparr>ws_game_id = 99, ws_winners = [2], ws_prize_per_winner = 9, ws_buyback_amount = 1,
       ws_timestamp = 7\<rparr>"

definition two_paid :: "AccountInfo list" where
  "two_paid = [\<lparr>acc_key = 1, lamports = 0\<rparr>, \<lparr>acc_key = 2, lamports = 9\<rparr>]"

definition ranked_settled :: GameState where
  "ranked_settled = process env_ok (SelectWinners two_accounts) ranked_game"

definition tied_settled :: GameState where
  "tied_settled = process env_ok (SelectWinners two_accounts) tied_game"

subsection \<open>The pool invariant\<close>

text \<open>The exact sum of the recorded deposits, and its agreement with the pool total.\<close>

definition sum_deposits :: "GameState \<Rightarrow> nat" where
  "sum_deposits gs = sum_list (map (\<lambda>p. unat (deposit p)) (players gs))"

definition pool_conserved :: "GameState \<Rightarrow> bool" where
  "pool_conserved gs = (unat (total_deposits gs) = sum_deposits gs)"

text \<open>
  The two-player rounds in the backend's repositories: players \<^verbatim>\<open>a\<close> and \<^verbatim>\<open>b\<close> with
  scores 1 and 2, and players \<^verbatim>\<open>b\<close> and \<^verbatim>\<open>a\<close>, loaded in this order, with the same score 5.
\<close>

definition ts_game_10 :: TsGame where
  "ts_game_10 = \<lparr>gameId = ''g'', totalDeposits = Num 10, prizePool = Num 10, active_ts = False\<rparr>"

definition ts_player_a :: "int \<Rightarrow> TsPlayer" where
  "ts_player_a score = \<lparr>key_ts = ''a'', deposit_ts = Num 5, tradingScore = score, game_ts = ''g''\<rparr>"

definition ts_player_b :: "int \<Rightarrow> TsPlayer" where
  "ts_player_b score = \<lparr>key_ts = ''b'', deposit_ts = Num 5, tradingScore = score, game_ts = ''g''\<rparr>"

definition ts_winner_b :: TsWinner where
  "ts_winner_b = \<lparr>w_playerKey = ''b'', w_prize = Num 9, w_game = ''g''\<rparr>"

definition ts_ranked :: Db where
  "ts_ranked =
     \<lparr>gameStates = [ts_game_10], playerRows = [ts_player_a 1, ts_player_b 2], winnerRows = []\<rparr>"

definition ts_tied :: Db where
  "ts_tied =
     \<lparr>gameStates = [ts_game_10], playerRows = [ts_player_b 5, ts_player_a 5], winnerRows = []\<rparr>"

definition ts_ranked_settled :: Db where
  "ts_ranked_settled =
     \<lparr>gameStates = [ts_game_10\<lparr>active_ts := True, prizePool := Num 0\<rparr>],
      playerRows = [ts_player_a 1, ts_player_b 2], winnerRows = [ts_winner_b]\<rparr>"

definition ts_tied_settled :: Db where
  "ts_tied_settled =
     \<lparr>gameStates = [ts_game_10\<lparr>active_ts := True, prizePool := Num 0\<rparr>],
      playerRows = [ts_player_b 5, ts_player_a 5], winnerRows = [ts_winner_b]\<rparr>"

section \<open>Auxiliary facts\<close>

subsection \<open>Rounding to binary64\<close>

lemma ilog2_bounds:
  assumes "0 < q"
  shows "2 powi (ilog2 q) \<le> q" and "q < 2 powi (ilog2 q + 1)"
proof -
  have "2 powi (ilog2 q) \<le> q \<and> q < 2 powi (ilog2 q + 1)"
  proof (cases "1 \<le> q")
    case True
    define n where "n = nat \<lfloor>q\<rfloor>"
    define fl where "fl = floorlog 2 n"
    have n1: "1 \<le> n" using True by (simp add: n_def le_nat_iff)
    have nq: "rat_of_nat n \<le> q" using True by (simp add: n_def)
    have qn: "q < rat_of_nat n + 1" using True by (simp add: n_def) linarith
    have b: "2 ^ (fl - 1) \<le> n" "n < 2 ^ fl"
      using floorlog_bounds[of n 2] n1 by (simp_all add: fl_def)
    have fl1: "1 \<le> fl" using b(2) n1 by (cases fl) simp_all
    have e: "ilog2 q = int (fl - 1)" using True fl1 by (simp add: ilog2_def n_def fl_def)
    have e1: "ilog2 q + 1 = int fl" using e fl1 by simp
    have "(2::rat) ^ (fl - 1) \<le> rat_of_nat n" using of_nat_mono[OF b(1), where 'a = rat] by simp
    then have "(2::rat) ^ (fl - 1) \<le> q" using nq by (rule order_trans)
    then have lo: "2 powi (ilog2 q) \<le> q" by (simp only: e power_int_of_nat)
    have "n + 1 \<le> 2 ^ fl" using b(2) by simp
    then have "rat_of_nat n + 1 \<le> 2 ^ fl" using of_nat_mono[of "n + 1" "2 ^ fl", where 'a = rat] by simp
    then have "q < 2 ^ fl" using qn by (rule less_le_trans[rotated])
    then have hi: "q < 2 powi (ilog2 q + 1)" by (simp only: e1 power_int_of_nat)
    from lo hi show ?thesis by simp
  next
    case False
    define x where "x = 1 / q"
    define n where "n = nat (\<lceil>x\<rceil> - 1)"
    define fl where "fl = floorlog 2 n"
    have x1: "1 < x" using False assms by (simp add: x_def)
    then have c2: "2 \<le> \<lceil>x\<rceil>" by (simp add: le_ceiling_iff) 
    have n1: "1 \<le> n" using c2 unfolding n_def by linarith
    have nc: "int n = \<lceil>x\<rceil> - 1" using c2 unfolding n_def by linarith
    have xn: "x \<le> rat_of_nat n + 1"
    proof -
      have "x \<le> of_int \<lceil>x\<rceil>" by simp
      also have "\<dots> = rat_of_nat n + 1" using nc by (metis add.commute diff_add_cancel of_int_1 of_int_add of_int_of_nat_eq add.commute)
      finally show ?thesis .
    qed
    have nx: "rat_of_nat n < x"
    proof -
      have "of_int (\<lceil>x\<rceil> - 1) < x" by linarith
      then show ?thesis using nc by (metis of_int_of_nat_eq)
    qed
    have b: "2 ^ (fl - 1) \<le> n" "n < 2 ^ fl"
      using floorlog_bounds[of n 2] n1 by (simp_all add: fl_def)
    have fl1: "1 \<le> fl" using b(2) n1 by (cases fl) simp_all
    have e: "ilog2 q = - int fl" using False by (simp add: ilog2_def n_def fl_def x_def)
    have e1: "ilog2 q + 1 = - int (fl - 1)" using e fl1 by simp
    have "n + 1 \<le> 2 ^ fl" using b(2) by simp
    then have "rat_of_nat n + 1 \<le> 2 ^ fl" using of_nat_mono[of "n + 1" "2 ^ fl", where 'a = rat] by simp
    with xn have "x \<le> 2 ^ fl" by (rule order_trans)
    then have "1 / 2 ^ fl \<le> q" using assms by (simp add: x_def field_simps)
    then have lo: "2 powi (ilog2 q) \<le> q" by (simp only: e power_int_minus_divide power_int_of_nat)
    have "(2::rat) ^ (fl - 1) \<le> rat_of_nat n" using of_nat_mono[OF b(1), where 'a = rat] by simp
    then have "2 ^ (fl - 1) < x" using nx by (rule le_less_trans)
    then have "q < 1 / 2 ^ (fl - 1)" using assms by (simp add: x_def field_simps)
    then have hi: "q < 2 powi (ilog2 q + 1)" by (simp only: e1 power_int_minus_divide power_int_of_nat)
    from lo hi show ?thesis by simp
  qed
  then show "2 powi (ilog2 q) \<le> q" and "q < 2 powi (ilog2 q + 1)" by simp_all
qed

lemma round_half_even_bounds:
  "\<lfloor>s\<rfloor> \<le> round_half_even s" "round_half_even s \<le> \<lfloor>s\<rfloor> + 1"
  by (simp_all add: round_half_even_def Let_def)

lemma round_half_even_floor:
  "s - of_int \<lfloor>s\<rfloor> < 1 / 2 \<Longrightarrow> round_half_even s = \<lfloor>s\<rfloor>"
  by (simp add: round_half_even_def Let_def)

lemma round_half_even_int [simp]: "round_half_even (of_int m) = m"
  by (simp add: round_half_even_def Let_def)

lemma f64_of_pos_quotient:
  fixes a k :: nat
  assumes a: "0 < a" "a < 2 ^ 53" and k: "0 < k" "k < 2 ^ 53"
  shows "\<exists>r. f64_of_pos (rat_of_nat a / rat_of_nat k) = Num r \<and>
             rat_of_nat (a div k) \<le> r \<and> r < rat_of_nat (a div k) + 1 \<and>
             (k dvd a \<longrightarrow> r = rat_of_nat (a div k))"
proof -
  define q where "q = rat_of_nat a / rat_of_nat k"
  define e where "e = ilog2 q"
  define j where "j = a div k"
  have kpos: "0 < rat_of_nat k" using k by simp
  have qpos: "0 < q" using a k by (simp add: q_def)
  have lo: "2 powi e \<le> q" and hi: "q < 2 powi (e + 1)"
    using ilog2_bounds[OF qpos] by (simp_all add: e_def)
  have kq: "rat_of_nat k * q = rat_of_nat a" using k by (simp add: q_def)
  have qa: "q \<le> rat_of_nat a"
  proof -
    have "1 \<le> rat_of_nat k" using k by simp
    then have "q * 1 \<le> q * rat_of_nat k" using qpos by (intro mult_left_mono) simp_all
    then show ?thesis using kq by (simp add: mult.commute)
  qed
  have a53: "rat_of_nat a < 2 ^ 53" using of_nat_less_iff[of a "2 ^ 53", where 'a = rat] a by simp
  have k53: "rat_of_nat k < 2 ^ 53" using of_nat_less_iff[of k "2 ^ 53", where 'a = rat] k by simp
  have e52: "e \<le> 52"
  proof (rule ccontr)
    assume "\<not> e \<le> 52"
    then have "53 \<le> e" by simp
    then have "(2::rat) powi 53 \<le> 2 powi e" by (intro power_int_increasing) simp_all
    then show False using lo qa a53 by simp
  qed
  have em: "- 53 \<le> e"
  proof (rule ccontr)
    assume "\<not> - 53 \<le> e"
    then have "e + 1 \<le> - 53" by simp
    then have "(2::rat) powi (e + 1) \<le> 2 powi (- 53)" by (intro power_int_increasing) simp_all
    then have "q < 1 / 2 ^ 53" using hi by (simp add: power_int_minus_divide)
    then have "rat_of_nat k * q < rat_of_nat k * (1 / 2 ^ 53)" using kpos by (intro mult_strict_left_mono)
    then have "rat_of_nat a < 1" using kq k53 by simp
    then show False using a by simp
  qed
  define t where "t = nat (52 - e)"
  define N where "N = (2::rat) ^ t"
  have Npos: "0 < N" by (simp add: N_def)
  have p: "max e (- 1022) - 52 = - int t" using e52 em by (simp add: t_def)
  have pw: "(2::rat) powi (- int t) = 1 / N" by (simp add: N_def power_int_minus_divide)
  have pe: "(2::rat) powi e = 2 ^ 52 / N"
  proof -
    have "e = 52 - int t" using e52 by (simp add: t_def)
    then have "(2::rat) powi e = 2 powi (52 + (- int t))" by simp
    also have "\<dots> = 2 powi 52 * 2 powi (- int t)" by (intro power_int_add) simp
    finally show ?thesis by (simp add: pw)
  qed
  define s where "s = q * N"
  have sq: "q / 2 powi (- int t) = s" by (simp add: pw s_def)
  define Ni where "Ni = (2::int) ^ t"
  have NNi: "N = of_int Ni" by (simp add: N_def Ni_def)
  have ajk: "a = k * j + a mod k" by (simp add: j_def)
  have jq: "rat_of_nat j \<le> q"
  proof -
    have "k * j \<le> a" by (simp add: j_def)
    then have "rat_of_nat k * rat_of_nat j \<le> rat_of_nat a"
      using of_nat_mono[of "k * j" a, where 'a = rat] by simp
    then show ?thesis using kpos by (simp add: q_def field_simps)
  qed
  have qj1: "rat_of_nat k * q + 1 \<le> rat_of_nat k * (rat_of_nat j + 1)"
  proof -
    have "a mod k < k" using k by simp
    then have "a + 1 \<le> k * (j + 1)" using ajk by (metis Suc_eq_plus1 Suc_leI add_less_cancel_left mult_Suc_right add.commute)
    then have "rat_of_nat (a + 1) \<le> rat_of_nat (k * (j + 1))" by (simp only: of_nat_le_iff)
    then have "rat_of_nat a + 1 \<le> rat_of_nat k * (rat_of_nat j + 1)" by (simp add: algebra_simps)
    then show ?thesis by (simp only: kq)
  qed
  have qlt: "q < rat_of_nat j + 1"
  proof -
    have "rat_of_nat k * q < rat_of_nat k * (rat_of_nat j + 1)" using qj1 by simp
    then show ?thesis using kpos by simp
  qed
  have slo: "of_int (int j * Ni) \<le> s"
    using jq Npos by (simp add: s_def NNi[symmetric] mult_right_mono)
  have shi: "s < of_int ((int j + 1) * Ni)"
    using qlt Npos by (simp add: s_def NNi[symmetric] mult_strict_right_mono)
  have flo: "int j * Ni \<le> \<lfloor>s\<rfloor>" using slo by (simp only: le_floor_iff)
  have fhi: "\<lfloor>s\<rfloor> < (int j + 1) * Ni" using shi by (simp only: floor_less_iff)
  have k2N: "rat_of_nat k < 2 * N"
  proof -
    have "rat_of_nat k * 2 powi e \<le> rat_of_nat k * q" using lo kpos by (intro mult_left_mono) simp_all
    then have "rat_of_nat k * (2 ^ 52 / N) < 2 ^ 53" using kq a53 by (simp add: pe)
    then have "rat_of_nat k * 2 ^ 52 < 2 ^ 53 * N" using Npos by (simp add: field_simps)
    then show ?thesis by simp
  qed
  have rlt: "round_half_even s < (int j + 1) * Ni"
  proof (cases "\<lfloor>s\<rfloor> + 1 < (int j + 1) * Ni")
    case True
    then show ?thesis using round_half_even_bounds(2)[of s] by linarith
  next
    case False
    then have fl: "\<lfloor>s\<rfloor> = (int j + 1) * Ni - 1" using fhi by linarith
    have "rat_of_nat k * s + N \<le> rat_of_nat k * ((rat_of_nat j + 1) * N)"
    proof -
      have "(rat_of_nat k * q + 1) * N \<le> (rat_of_nat k * (rat_of_nat j + 1)) * N"
        using qj1 Npos by (intro mult_right_mono) simp_all
      then show ?thesis by (simp add: s_def algebra_simps)
    qed
    then have "rat_of_nat k * (s - of_int \<lfloor>s\<rfloor>) \<le> rat_of_nat k - N"
      by (simp add: fl NNi algebra_simps)
    moreover have "rat_of_nat k - N < rat_of_nat k * (1 / 2)" using k2N by simp
    ultimately have "rat_of_nat k * (s - of_int \<lfloor>s\<rfloor>) < rat_of_nat k * (1 / 2)" by simp
    then have "s - of_int \<lfloor>s\<rfloor> < 1 / 2" using kpos by (simp only: mult_less_cancel_left_pos)
    then have "round_half_even s = \<lfloor>s\<rfloor>" by (rule round_half_even_floor)
    then show ?thesis using fhi by simp
  qed
  have rge: "int j * Ni \<le> round_half_even s"
    using flo round_half_even_bounds(1)[of s] by linarith
  define r where "r = of_int (round_half_even s) * (1 / N)"
  have r1: "rat_of_nat j \<le> r"
  proof -
    have "of_int (int j * Ni) \<le> (of_int (round_half_even s) :: rat)" using rge by (simp only: of_int_le_iff)
    then have "rat_of_nat j * N \<le> of_int (round_half_even s)" by (simp add: NNi)
    then show ?thesis using Npos by (simp add: r_def field_simps)
  qed
  have r2: "r < rat_of_nat j + 1"
  proof -
    have "(of_int (round_half_even s) :: rat) < of_int ((int j + 1) * Ni)" using rlt by (simp only: of_int_less_iff)
    then have "of_int (round_half_even s) < (rat_of_nat j + 1) * N" by (simp add: NNi)
    then show ?thesis using Npos by (simp add: r_def field_simps)
  qed
  have "rat_of_nat j + 1 \<le> rat_of_nat a + 1" using jq qa by simp
  then have "r < 2 ^ 1024"
  proof -
    have "r < 2 ^ 53 + 1" using r2 \<open>rat_of_nat j + 1 \<le> rat_of_nat a + 1\<close> a53 by simp
    moreover have "(2::rat) ^ 53 + 1 \<le> 2 ^ 1024" by simp
    ultimately show ?thesis by simp
  qed
  then have big: "\<not> 2 ^ 1024 \<le> r" by (simp only: not_le)
  have "f64_of_pos q =
          (if 2 ^ 1024 \<le> rat_of_int (round_half_even (q / 2 powi (max (ilog2 q) (- 1022) - 52))) *
                2 powi (max (ilog2 q) (- 1022) - 52)
           then PosInfinity
           else Num (of_int (round_half_even (q / 2 powi (max (ilog2 q) (- 1022) - 52))) *
                2 powi (max (ilog2 q) (- 1022) - 52)))"
    by (simp only: f64_of_pos_def Let_def)
  also have "\<dots> = (if 2 ^ 1024 \<le> r then PosInfinity else Num r)"
  proof -
    have sq': "q / (1 / N) = s" by (simp add: s_def)
    show ?thesis by (simp only: e_def[symmetric] p pw sq' r_def[symmetric])
  qed
  finally have val: "f64_of_pos q = Num r" using big by (simp only: if_False)
  have dv: "k dvd a \<longrightarrow> r = rat_of_nat j"
  proof
    assume "k dvd a"
    then have "a = k * j" by (simp add: j_def)
    then have "q = rat_of_nat j" using k by (simp add: q_def)
    then have "s = of_int (int j * Ni)" by (simp add: s_def NNi)
    then have "round_half_even s = int j * Ni" by (simp only: round_half_even_int)
    then show "r = rat_of_nat j" using Npos by (simp add: r_def NNi)
  qed
  show ?thesis using val r1 r2 dv by (auto simp: q_def j_def)
qed

lemma f64_of_rat_nat: "a < 2 ^ 53 \<Longrightarrow> f64_of_rat (rat_of_nat a) = Num (rat_of_nat a)"
proof (cases "a = 0")
  case True
  then show ?thesis by (simp add: f64_of_rat_def)
next
  case False
  assume "a < 2 ^ 53"
  then obtain r where "f64_of_pos (rat_of_nat a / rat_of_nat 1) = Num r" "r = rat_of_nat (a div 1)"
    using f64_of_pos_quotient[of a 1] False by auto
  then show ?thesis using False by (simp add: f64_of_rat_def)
qed

lemma js_add_nat:
  "a + b < 2 ^ 53 \<Longrightarrow>
     js_add (Num (rat_of_nat a)) (Num (rat_of_nat b)) = Num (rat_of_nat (a + b))"
  using f64_of_rat_nat[of "a + b"] by simp

lemma js_mul_nat:
  "a * b < 2 ^ 53 \<Longrightarrow>
     js_mul (Num (rat_of_nat a)) (Num (rat_of_nat b)) = Num (rat_of_nat (a * b))"
  using f64_of_rat_nat[of "a * b"] by simp

lemma js_floor_div_nat:
  assumes "a < 2 ^ 53" and "0 < k" and "k < 2 ^ 53"
  shows "js_floor (js_div (Num (rat_of_nat a)) (Num (rat_of_nat k))) = Num (rat_of_nat (a div k))"
proof (cases "a = 0")
  case True
  then show ?thesis using assms by (simp add: f64_of_rat_def)
next
  case False
  then obtain r where r: "f64_of_pos (rat_of_nat a / rat_of_nat k) = Num r"
      "rat_of_nat (a div k) \<le> r" "r < rat_of_nat (a div k) + 1"
    using f64_of_pos_quotient[of a k] assms by auto
  have "of_int (int (a div k)) \<le> r" "r < of_int (int (a div k)) + 1" using r(2,3) by simp_all
  then have "\<lfloor>r\<rfloor> = int (a div k)" by (simp only: floor_unique)
  then show ?thesis using False assms r(1) by (simp add: f64_of_rat_def)
qed

lemma js_pool_share:
  assumes "P * c < 2 ^ 53" and "0 < c"
  shows "js_floor (js_div (js_mul (Num (rat_of_nat P)) (Num (rat_of_nat c))) (Num (rat_of_nat 100))) =
           Num (rat_of_nat (P * c div 100))"
  using assms js_floor_div_nat[of "P * c" 100] by (simp only: js_mul_nat) simp

declare js_add.simps [simp del] js_mul.simps [simp del] js_div.simps [simp del]

subsection \<open>The winner count is the ceiling of a tenth\<close>

lemma f64_shift_upper: "q < 2 ^ 53 * 2 ^ f64_shift q"
proof (induction q rule: f64_shift.induct)
  case (1 q)
  show ?case
  proof (cases "q < 2 ^ 53")
    case True
    then show ?thesis by (subst f64_shift.simps) simp
  next
    case False
    then have "q div 2 < 2 ^ 53 * 2 ^ f64_shift (q div 2)" using 1 by simp
    then have "q < 2 * (2 ^ 53 * 2 ^ f64_shift (q div 2))" by linarith
    with False show ?thesis by (subst f64_shift.simps) simp
  qed
qed

lemma f64_shift_lower: "0 < f64_shift q \<Longrightarrow> 2 ^ 52 * 2 ^ f64_shift q \<le> q"
proof (induction q rule: f64_shift.induct)
  case (1 q)
  show ?case
  proof (cases "q < 2 ^ 53")
    case True
    then have "f64_shift q = 0" by (subst f64_shift.simps) simp
    with 1(2) show ?thesis by simp
  next
    case False
    then have eq: "f64_shift q = Suc (f64_shift (q div 2))" by (subst f64_shift.simps) simp
    show ?thesis
    proof (cases "f64_shift (q div 2) = 0")
      case True
      with eq False show ?thesis by simp
    next
      case False': False
      then have "2 ^ 52 * 2 ^ f64_shift (q div 2) \<le> q div 2" using 1(1) False by simp
      then have "2 * (2 ^ 52 * 2 ^ f64_shift (q div 2)) \<le> q" by linarith
      with eq show ?thesis by simp
    qed
  qed
qed

lemma f64_shift_small: "q < 2 ^ 53 \<Longrightarrow> f64_shift q = 0"
  by (subst f64_shift.simps) simp

lemma f64_round_small: "q < 2 ^ 53 \<Longrightarrow> f64_round q = q"
  by (simp add: f64_round_def f64_shift_small)

lemma f64_round_cases:
  assumes "f64_shift q = s" "0 < s"
  shows "(f64_round q = (q div 2 ^ s) * 2 ^ s \<and> q mod 2 ^ s \<le> 2 ^ (s - 1)) \<or>
         f64_round q = (q div 2 ^ s) * 2 ^ s + 2 ^ s"
proof (cases "2 ^ (s - 1) < q mod 2 ^ s \<or> (q mod 2 ^ s = 2 ^ (s - 1) \<and> odd (q div 2 ^ s))")
  case True
  then have "f64_round q = (q div 2 ^ s + 1) * 2 ^ s"
    using assms by (simp add: f64_round_def Let_def)
  then show ?thesis by (simp add: algebra_simps)
next
  case False
  then have "f64_round q = (q div 2 ^ s) * 2 ^ s"
    using assms by (auto simp add: f64_round_def Let_def)
  moreover from False have "q mod 2 ^ s \<le> 2 ^ (s - 1)" by linarith
  ultimately show ?thesis by simp
qed

lemma f64_round_down:
  assumes "f64_shift q = s" "0 < s" "q = t * 2 ^ s + e" "e < 2 ^ (s - 1)"
  shows "f64_round q = t * 2 ^ s"
proof -
  have "(2::nat) ^ (s - 1) \<le> 2 ^ s" by (rule power_increasing) simp_all
  with assms(4) have e: "e < 2 ^ s" by linarith
  have m: "q div 2 ^ s = t" using e assms(3) by simp
  have r: "q mod 2 ^ s = e" using e assms(3) by simp
  show ?thesis using assms(1,2,4) m r by (simp add: f64_round_def Let_def)
qed

lemma f64_round_lower:
  assumes "f64_shift q = s" "0 < s"
  shows "q \<le> f64_round q + 2 ^ (s - 1)"
proof -
  have d: "q = (q div 2 ^ s) * 2 ^ s + q mod 2 ^ s" by (rule div_mult_mod_eq[symmetric])
  have l: "q mod 2 ^ s < 2 ^ s" by simp
  show ?thesis using f64_round_cases[OF assms] d l by linarith
qed

lemma f64_round_upper:
  assumes "f64_shift q = s" "q < t * 2 ^ s"
  shows "f64_round q \<le> t * 2 ^ s"
proof (cases "s = 0")
  case True
  then show ?thesis using assms by (simp add: f64_round_def)
next
  case False
  have "q div 2 ^ s < t" using assms(2) by (simp add: div_less_iff_less_mult)
  then have "q div 2 ^ s + 1 \<le> t" by simp
  then have "(q div 2 ^ s + 1) * 2 ^ s \<le> t * 2 ^ s" by (rule mult_le_mono1)
  then have a: "(q div 2 ^ s) * 2 ^ s + 2 ^ s \<le> t * 2 ^ s" by (simp add: algebra_simps)
  show ?thesis using a f64_round_cases[OF assms(1)] False by linarith
qed

lemma pow55_split: "s \<le> 55 \<Longrightarrow> (2::nat) ^ 55 = 2 ^ (55 - s) * 2 ^ s"
  by (simp add: power_add[symmetric])

lemma num_winners_of_ceil:
  assumes n: "n < 2 ^ 53"
  shows "num_winners_of n = (n + 9) div 10"
proof -
  define q where "q = n * tenth_f64"
  define s where "s = f64_shift q"
  define R where "R = f64_round q"
  define k where "k = n div 10"
  define r where "r = n mod 10"
  have sq: "f64_shift q = s" by (simp add: s_def)
  have nkr: "n = 10 * k + r" and r: "r < 10" by (simp_all add: k_def r_def)
  have q: "q = n * 3602879701896397" by (simp add: q_def tenth_f64_def)
  have nw: "num_winners_of n = (R + 36028797018963967) div 36028797018963968"
    using n by (simp add: num_winners_of_def f64_round_small R_def q_def Let_def)
  have up: "q < 9007199254740992 * 2 ^ s" using f64_shift_upper[of q] by (simp add: s_def)
  have s53: "s < 53"
  proof (rule ccontr)
    assume "\<not> s < 53"
    then have s: "53 \<le> s" by simp
    then have "(2::nat) ^ 53 \<le> 2 ^ s" by (rule power_increasing) simp
    moreover have "2 ^ 52 * 2 ^ s \<le> q" using f64_shift_lower[of q] s by (simp add: s_def)
    ultimately show False using n q by simp
  qed
  then have D: "(36028797018963968::nat) = 2 ^ (55 - s) * 2 ^ s"
    using pow55_split[of s] by simp
  have half: "0 < s \<Longrightarrow> (2::nat) ^ (s - 1) \<le> 2251799813685248"
  proof -
    assume "0 < s"
    have "(2::nat) ^ (s - 1) \<le> 2 ^ 51" by (rule power_increasing) (use s53 in simp_all)
    then show ?thesis by simp
  qed
  have two: "0 < s \<Longrightarrow> (2::nat) ^ s = 2 * 2 ^ (s - 1)" by (cases s) simp_all
  show ?thesis
  proof (cases "r = 0")
    case True
    show ?thesis
    proof (cases "k = 0")
      case True
      with \<open>r = 0\<close> nkr have "n = 0" by simp
      then show ?thesis by (simp add: num_winners_of_def f64_round_small Let_def)
    next
      case False
      then have k1: "1 \<le> k" by simp
      have qk: "q = k * 36028797018963968 + 2 * k" using q nkr True by simp
      have spos: "0 < s"
      proof (rule ccontr)
        assume "\<not> 0 < s"
        then show False using up qk k1 by simp
      qed
      have e: "2 * k < 2 ^ (s - 1)" using up qk two[OF spos] by simp
      have "q = (k * 2 ^ (55 - s)) * 2 ^ s + 2 * k"
        using qk D by (metis mult.assoc)
      then have "R = (k * 2 ^ (55 - s)) * 2 ^ s"
        unfolding R_def by (rule f64_round_down[OF sq spos _ e])
      then have "R = k * 36028797018963968" using D by (metis mult.assoc)
      then show ?thesis using nw nkr True by simp
    qed
  next
    case False
    then have r1: "1 \<le> r" by simp
    have lower: "k * 36028797018963968 < R"
    proof (cases "s = 0")
      case True
      then have "R = q" using sq by (simp add: R_def f64_round_def)
      then show ?thesis using q nkr r1 by simp
    next
      case False
      then have "q \<le> R + 2 ^ (s - 1)"
        unfolding R_def by (intro f64_round_lower[OF sq]) simp
      then show ?thesis using half False q nkr r1 n by simp
    qed
    have "q < (k + 1) * 36028797018963968" using q nkr r n by simp
    then have "q < ((k + 1) * 2 ^ (55 - s)) * 2 ^ s" using D by (metis mult.assoc)
    then have "R \<le> ((k + 1) * 2 ^ (55 - s)) * 2 ^ s"
      unfolding R_def by (rule f64_round_upper[OF sq])
    then have upper: "R \<le> (k + 1) * 36028797018963968" using D by (metis mult.assoc)
    have "(R + 36028797018963967) div 36028797018963968 = k + 1"
      using lower upper by simp
    then show ?thesis using nw nkr r r1 by simp
  qed
qed

lemma ceil_tenth: "\<lceil>real n / 10\<rceil> = int ((n + 9) div 10)"
proof -
  have "\<lceil>(of_int (int n) :: real) / of_int 10\<rceil> = - (- int n div 10)"
    by (rule ceiling_divide_eq_div)
  then show ?thesis by simp
qed

subsection \<open>The stable sort\<close>

lemma set_insert_by [simp]: "set (insert_by lt x ys) = insert x (set ys)"
  by (induction ys) auto

lemma length_insert_by [simp]: "length (insert_by lt x ys) = Suc (length ys)"
  by (induction ys) auto

lemma set_sort_by [simp]: "set (sort_by lt xs) = set xs"
  by (induction xs) auto

lemma length_sort_by [simp]: "length (sort_by lt xs) = length xs"
  by (induction xs) auto

lemma mset_insert_by [simp]: "mset (insert_by lt x ys) = add_mset x (mset ys)"
  by (induction ys) auto

lemma mset_sort_by [simp]: "mset (sort_by lt xs) = mset xs"
  by (induction xs) auto

lemma sorted_insert_by_score:
  "sorted_wrt (\<lambda>a b. trading_score b \<le> trading_score a) ys \<Longrightarrow>
   sorted_wrt (\<lambda>a b. trading_score b \<le> trading_score a) (insert_by by_score_desc x ys)"
  by (induction ys) (auto simp: by_score_desc_def)

lemma sorted_sort_by_score:
  "sorted_wrt (\<lambda>a b. trading_score b \<le> trading_score a) (sort_by by_score_desc xs)"
  by (induction xs) (auto simp: sorted_insert_by_score)

lemma filter_insert_by_score:
  "filter (\<lambda>p. trading_score p = v) (insert_by by_score_desc x ys) =
     (if trading_score x = v then x # filter (\<lambda>p. trading_score p = v) ys
      else filter (\<lambda>p. trading_score p = v) ys)"
  by (induction ys) (auto simp: by_score_desc_def)

lemma sort_by_score_stable:
  "filter (\<lambda>p. trading_score p = v) (sort_by by_score_desc xs) =
   filter (\<lambda>p. trading_score p = v) xs"
  by (induction xs) (auto simp: filter_insert_by_score)

lemma sorted_insert_by_tradingScore:
  "sorted_wrt (\<lambda>a b. tradingScore b \<le> tradingScore a) ys \<Longrightarrow>
   sorted_wrt (\<lambda>a b. tradingScore b \<le> tradingScore a) (insert_by by_tradingScore_desc x ys)"
  by (induction ys) (auto simp: by_tradingScore_desc_def)

lemma sorted_sort_by_tradingScore:
  "sorted_wrt (\<lambda>a b. tradingScore b \<le> tradingScore a) (sort_by by_tradingScore_desc xs)"
  by (induction xs) (auto simp: sorted_insert_by_tradingScore)

lemma filter_insert_by_tradingScore:
  "filter (\<lambda>p. tradingScore p = v) (insert_by by_tradingScore_desc x ys) =
     (if tradingScore x = v then x # filter (\<lambda>p. tradingScore p = v) ys
      else filter (\<lambda>p. tradingScore p = v) ys)"
  by (induction ys) (auto simp: by_tradingScore_desc_def)

lemma sort_by_tradingScore_stable:
  "filter (\<lambda>p. tradingScore p = v) (sort_by by_tradingScore_desc xs) =
   filter (\<lambda>p. tradingScore p = v) xs"
  by (induction xs) (auto simp: filter_insert_by_tradingScore)

lemma length_take_winners:
  "length xs < 2 ^ 53 \<Longrightarrow>
   length (take (num_winners_of (length xs)) (sort_by lt xs)) = (length xs + 9) div 10"
  by (simp add: num_winners_of_ceil)

lemma num_winners_of_upto_11:
  "map num_winners_of [1, 2, 3, 4, 5, 6, 7, 8, 9, 10, 11] = [1, 1, 1, 1, 1, 1, 1, 1, 1, 1, 2]"
  by (simp add: num_winners_of_ceil)

subsection \<open>Outcomes of \<^verbatim>\<open>select_winners\<close>\<close>

lemma select_winners_Inr:
  assumes "select_winners env accs gs = (Inr ev, gs', accs')"
  shows "0 < total_deposits gs" and "\<not> active gs"
    and "gs' = gs\<lparr>winners := take (num_winners_of (length (players gs)))
                 (sort_by by_score_desc (players gs)),
               total_deposits := 0, prize_pool := 0, active := True\<rparr>"
    and "ws_winners ev = map key (take (num_winners_of (length (players gs)))
                 (sort_by by_score_desc (players gs)))"
    and "(of_nat (num_winners_of (length (players gs))) :: u64) \<noteq> 0"
    and "ws_prize_per_winner ev =
           (prize_pool gs * 90 div 100) div of_nat (num_winners_of (length (players gs)))"
    and "ws_buyback_amount ev = prize_pool gs * 10 div 100"
    and "overflow_checks env \<longrightarrow> unat (prize_pool gs) * 90 < 2 ^ 64"
  using assms
  by (auto simp: select_winners_def Let_def u64_mul_def checked_div_def
      split: if_splits sum.splits option.splits prod.splits)

lemma select_winners_Inl:
  assumes "select_winners env accs gs = (Inl e, gs', accs')"
  shows "total_deposits gs' = total_deposits gs" "prize_pool gs' = prize_pool gs"
    "active gs' = active gs" "players gs' = players gs" "game_id gs' = game_id gs"
  using assms
  by (auto simp: select_winners_def Let_def
      split: if_splits sum.splits option.splits prod.splits)

subsection \<open>Outcomes of the backend's \<^verbatim>\<open>selectWinners\<close>\<close>

lemma save_winners_Inr:
  "save_winners io ws db = (Inr io', db') \<Longrightarrow> db' = db\<lparr>winnerRows := winnerRows db @ ws\<rparr>"
  by (induction io ws db rule: save_winners.induct)
     (auto simp: save_winner_def split: if_splits)

lemma save_winners_Inl:
  "save_winners io ws db = (Inl e, db') \<Longrightarrow>
     \<exists>j < length ws. db' = db\<lparr>winnerRows := winnerRows db @ take j ws\<rparr>"
proof (induction io ws db rule: save_winners.induct)
  case (1 io db)
  then show ?case by simp
next
  case (2 io w ws db)
  show ?case
  proof (cases "write_ok io")
    case False
    with 2(2) have "db' = db" by simp
    then show ?thesis by (intro exI[of _ 0]) simp
  next
    case True
    with 2 obtain j where "j < length ws"
      "db' = (save_winner w db)\<lparr>winnerRows := winnerRows (save_winner w db) @ take j ws\<rparr>"
      by auto
    then show ?thesis by (intro exI[of _ "Suc j"]) (simp add: save_winner_def)
  qed
qed

lemma selectWinners_Inr:
  assumes "selectWinners io gid db = (Inr (ws, buyback), db')"
  shows "\<exists>game. find (\<lambda>g. gameId g = gid) (gameStates db) = Some game \<and> \<not> active_ts game \<and>
     buyback = js_floor (js_div (js_mul (prizePool game) (Num 10)) (Num 100)) \<and>
     ws = map (\<lambda>player. \<lparr>w_playerKey = key_ts player,
                 w_prize = js_floor (js_div
                    (js_floor (js_div (js_mul (prizePool game) (Num 90)) (Num 100)))
                    (Num (of_nat (num_winners_of (length (game_players gid db)))))),
                 w_game = gid\<rparr>)
            (take (num_winners_of (length (game_players gid db)))
               (sort_by by_tradingScore_desc (game_players gid db))) \<and>
     db' = save_game (game\<lparr>active_ts := True, prizePool := Num 0\<rparr>)
             (db\<lparr>winnerRows := winnerRows db @ ws\<rparr>)"
  using assms
  by (auto simp: selectWinners_def Let_def dest!: save_winners_Inr
      split: option.splits if_splits sum.splits prod.splits)

subsection \<open>The sample data evaluated\<close>

lemma num_winners_of_one [simp]: "num_winners_of (Suc 0) = 1"
  using num_winners_of_ceil[of 1] by simp

lemma one_player_game_eq:
  "one_player_game =
     \<lparr>total_deposits = 5, prize_pool = 5, active = False,
       players = [\<lparr>key = 1, deposit = 5, trading_score = 0, last_active = 7\<rparr>],
       winners = [], game_id = 99\<rparr>"
  by (simp add: one_player_game_def fresh_game_def zeroed_def env_ok_def process_def
      initialize_def deposit_ix_def checked_add_def)

lemma reachable_one_player_game: "reachable one_player_game"
  unfolding one_player_game_def fresh_game_def
  by (intro reachable_step reachable_init)

lemma select_winners_one_player:
  "select_winners env_ok [winner_account_1] one_player_game =
     (Inr one_player_event,
      \<lparr>total_deposits = 0, prize_pool = 0, active = True,
        players = [\<lparr>key = 1, deposit = 5, trading_score = 0, last_active = 7\<rparr>],
        winners = [\<lparr>key = 1, deposit = 5, trading_score = 0, last_active = 7\<rparr>],
        game_id = 99\<rparr>,
      [\<lparr>acc_key = 1, lamports = 4\<rparr>])"
  by (simp add: one_player_game_eq select_winners_def env_ok_def winner_account_1_def
      one_player_event_def u64_mul_def u64_add_def checked_div_def Let_def)

lemma settled_game_eq:
  "settled_game =
     \<lparr>total_deposits = 0, prize_pool = 0, active = True,
       players = [\<lparr>key = 1, deposit = 5, trading_score = 0, last_active = 7\<rparr>],
       winners = [\<lparr>key = 1, deposit = 5, trading_score = 0, last_active = 7\<rparr>],
       game_id = 99\<rparr>"
  by (simp add: settled_game_def process_def select_winners_one_player)

lemma select_winners_settled:
  "select_winners env_ok [winner_account_1] one_player_game =
     (Inr one_player_event, settled_game, [\<lparr>acc_key = 1, lamports = 4\<rparr>])"
  by (simp add: select_winners_one_player settled_game_eq)

lemma reachable_settled_game: "reachable settled_game"
  unfolding settled_game_def by (intro reachable_step reachable_one_player_game)

lemma players_one_player_game:
  "players one_player_game = [\<lparr>key = 1, deposit = 5, trading_score = 0, last_active = 7\<rparr>]"
  by (simp add: one_player_game_eq)

lemma prize_pool_one_player_game: "prize_pool one_player_game = 5"
  by (simp add: one_player_game_eq)

lemma game_players_ts_one_player: "game_players ''g'' ts_one_player = [ts_player]"
  by (simp add: ts_one_player_def game_players_def ts_player_def)

lemma find_game_ts_one_player:
  "find (\<lambda>g. gameId g = ''g'') (gameStates ts_one_player) = Some ts_game"
  by (simp add: ts_one_player_def ts_game_def)

lemma js_share_5_90: "js_floor (js_div (js_mul (Num 5) (Num 90)) (Num 100)) = Num 4"
  using js_pool_share[of 5 90] by simp

lemma js_share_5_10: "js_floor (js_div (js_mul (Num 5) (Num 10)) (Num 100)) = Num 0"
  using js_pool_share[of 5 10] by simp

lemma js_floor_div_4_1: "js_floor (js_div (Num 4) (Num 1)) = Num 4"
  using js_floor_div_nat[of 4 1] by simp

lemma prizePool_ts_game: "prizePool ts_game = Num 5" "\<not> active_ts ts_game"
  by (simp_all add: ts_game_def)

lemma selectWinners_ts_one_player:
  "selectWinners [] ''g'' ts_one_player = (Inr ([ts_winner], Num 0), ts_settled)"
  by (simp add: selectWinners_def find_game_ts_one_player game_players_ts_one_player Let_def
        prizePool_ts_game js_share_5_90 js_share_5_10 js_floor_div_4_1)
     (simp add: ts_one_player_def ts_settled_def ts_game_def ts_player_def ts_winner_def
       save_game_def save_winner_def)

lemma nine_tenths_nat: "b < 10 \<Longrightarrow> 9 * b div 10 + (if b = 0 then 0 else 1) = (b::nat)"
  by (cases "b = 0") (simp_all, linarith?)

lemma split_residual_nat: "(P::nat) * 90 div 100 + P * 10 div 100 + (if 10 dvd P then 0 else 1) = P"
proof -
  define a where "a = P div 10"
  define b where "b = P mod 10"
  have P: "P = 10 * a + b" and b: "b < 10" by (simp_all add: a_def b_def)
  have d: "10 dvd P \<longleftrightarrow> b = 0" by (simp add: b_def dvd_eq_mod_eq_0)
  have "P * 90 div 100 = (P * 9) div 10" by simp
  also have "\<dots> = 9 * a + 9 * b div 10" using P by simp
  finally have x: "P * 90 div 100 = 9 * a + 9 * b div 10" .
  have y: "P * 10 div 100 = a" by (simp add: a_def)
  show ?thesis using x y d nine_tenths_nat[OF b] P by simp
qed

lemma nine_tenths_int: "0 \<le> b \<Longrightarrow> b < 10 \<Longrightarrow> 9 * b div 10 + (if b = 0 then 0 else 1) = (b::int)"
  by (cases "b = 0") (simp_all, linarith?)

lemma split_residual_int: "(P::int) * 90 div 100 + P * 10 div 100 + (if 10 dvd P then 0 else 1) = P"
proof -
  define a where "a = P div 10"
  define b where "b = P mod 10"
  have P: "P = 10 * a + b" and b: "0 \<le> b" "b < 10" by (simp_all add: a_def b_def)
  have d: "10 dvd P \<longleftrightarrow> b = 0" by (simp add: b_def dvd_eq_mod_eq_0)
  have "P * 90 div 100 = (P * 9) div 10" by simp
  also have "\<dots> = 9 * a + 9 * b div 10" using P by simp
  finally have x: "P * 90 div 100 = 9 * a + 9 * b div 10" .
  have y: "P * 10 div 100 = a" by (simp add: a_def)
  show ?thesis using x y d nine_tenths_int[OF b] P by simp
qed

lemma share_residual_nat:
  "0 < k \<Longrightarrow> k * (a div k) \<le> a \<and> a - k * (a div k) \<le> k - 1" for a k :: nat
proof -
  assume k: "0 < k"
  have e: "a = k * (a div k) + a mod k" by simp
  have l: "a mod k < k" using k by simp
  have "k * (a div k) \<le> a" using e by linarith
  moreover have "a - k * (a div k) \<le> k - 1" using e l by linarith
  ultimately show ?thesis by simp
qed

lemma share_residual_int:
  "0 < k \<Longrightarrow> k * (a div k) \<le> a \<and> a - k * (a div k) \<le> k - 1" for a k :: int
proof -
  assume k: "0 < k"
  have e: "a = k * (a div k) + a mod k" by simp
  have l: "a mod k < k" "0 \<le> a mod k" using k by simp_all
  have "k * (a div k) \<le> a" using e l by linarith
  moreover have "a - k * (a div k) \<le> k - 1" using e l by linarith
  ultimately show ?thesis by simp
qed

lemma unat_pool_90:
  fixes pool :: u64
  assumes "unat pool * 90 < 2 ^ 64"
  shows "unat (pool * 90 div 100) = unat pool * 90 div 100"
proof -
  have "unat pool * unat (90 :: u64) < 2 ^ LENGTH(64)" using assms by simp
  then have "unat (pool * 90) = unat pool * unat (90 :: u64)" by (simp only: unat_mult_lem)
  then show ?thesis by (simp add: unat_div)
qed

lemma unat_pool_10:
  fixes pool :: u64
  assumes "unat pool * 90 < 2 ^ 64"
  shows "unat (pool * 10 div 100) = unat pool * 10 div 100"
proof -
  have "unat pool * unat (10 :: u64) < 2 ^ LENGTH(64)" using assms by simp
  then have "unat (pool * 10) = unat pool * unat (10 :: u64)" by (simp only: unat_mult_lem)
  then show ?thesis by (simp add: unat_div)
qed

lemma unat_count: "k < 2 ^ 53 \<Longrightarrow> unat (word_of_nat k :: u64) = k"
  by (simp add: unat_of_nat)

lemma length_winners_eq_count:
  "length xs < 2 ^ 53 \<Longrightarrow>
   length (take (num_winners_of (length xs)) (sort_by lt xs)) = num_winners_of (length xs)"
  by (simp add: num_winners_of_ceil)

lemma num_winners_of_less: "n < 2 ^ 53 \<Longrightarrow> num_winners_of n < 2 ^ 53"
  by (simp add: num_winners_of_ceil)

lemma select_winners_amounts:
  assumes ok: "select_winners env accs gs = (Inr ev, gs', accs')"
    and pool: "unat (prize_pool gs) * 90 < 2 ^ 64"
    and n: "length (players gs) < 2 ^ 53"
  shows "unat (ws_buyback_amount ev) = unat (prize_pool gs) * 10 div 100"
    and "unat (ws_prize_per_winner ev) =
           (unat (prize_pool gs) * 90 div 100) div length (ws_winners ev)"
    and "0 < length (ws_winners ev)"
proof -
  let ?k = "num_winners_of (length (players gs))"
  have k: "length (ws_winners ev) = ?k"
    using select_winners_Inr(4)[OF ok] length_winners_eq_count[OF n] by simp
  have uk: "unat (word_of_nat ?k :: u64) = ?k"
    using num_winners_of_less[OF n] by (simp add: unat_of_nat)
  show "unat (ws_buyback_amount ev) = unat (prize_pool gs) * 10 div 100"
    using select_winners_Inr(7)[OF ok] unat_pool_10[OF pool] by simp
  show "unat (ws_prize_per_winner ev) =
           (unat (prize_pool gs) * 90 div 100) div length (ws_winners ev)"
    using select_winners_Inr(6)[OF ok] unat_pool_90[OF pool] uk k by (simp add: unat_div)
  have "?k \<noteq> 0"
  proof
    assume "?k = 0"
    then have "(word_of_nat ?k :: u64) = 0" by simp
    then show False using select_winners_Inr(5)[OF ok] by simp
  qed
  then show "0 < length (ws_winners ev)" using k by simp
qed

lemma selectWinners_amounts:
  assumes ok: "selectWinners io gid db = (Inr (ws, buyback), db')"
    and game: "find (\<lambda>g. gameId g = gid) (gameStates db) = Some game"
    and pool: "prizePool game = Num (rat_of_nat P)" "P * 90 < 2 ^ 53"
    and n: "length (game_players gid db) < 2 ^ 53"
  shows "buyback = Num (rat_of_nat (P * 10 div 100))"
    and "length ws = (length (game_players gid db) + 9) div 10"
    and "map w_prize ws =
           replicate (length ws) (Num (rat_of_nat (P * 90 div 100 div length ws)))"
proof -
  let ?k = "num_winners_of (length (game_players gid db))"
  let ?share = "js_floor (js_div (js_floor (js_div (js_mul (prizePool game) (Num 90)) (Num 100)))
                  (Num (of_nat ?k)))"
  from selectWinners_Inr[OF ok] game
  have b: "buyback = js_floor (js_div (js_mul (prizePool game) (Num 10)) (Num 100))"
    and ws: "ws = map (\<lambda>player. \<lparr>w_playerKey = key_ts player, w_prize = ?share, w_game = gid\<rparr>)
            (take ?k (sort_by by_tradingScore_desc (game_players gid db)))"
    by auto
  have k: "length ws = ?k" using ws length_winners_eq_count[OF n] by simp
  have kc: "?k = (length (game_players gid db) + 9) div 10" by (rule num_winners_of_ceil[OF n])
  have p10: "P * 10 < 2 ^ 53" using pool(2) by simp
  have "js_floor (js_div (js_mul (Num (rat_of_nat P)) (Num (rat_of_nat 10))) (Num (rat_of_nat 100))) =
          Num (rat_of_nat (P * 10 div 100))"
    by (rule js_pool_share[OF p10]) simp
  then show "buyback = Num (rat_of_nat (P * 10 div 100))" by (simp add: b pool(1))
  show "length ws = (length (game_players gid db) + 9) div 10" using k kc by simp
  have pay: "js_floor (js_div (js_mul (prizePool game) (Num 90)) (Num 100)) =
          Num (rat_of_nat (P * 90 div 100))"
    using js_pool_share[OF pool(2), of ] by (simp add: pool(1))
  have mp: "map w_prize ws = replicate (length ws) ?share"
    using k length_winners_eq_count[OF n] by (subst ws) (simp add: comp_def map_replicate_const)
  show "map w_prize ws = replicate (length ws) (Num (rat_of_nat (P * 90 div 100 div length ws)))"
  proof (cases "length ws = 0")
    case True
    then show ?thesis by simp
  next
    case False
    then have kpos: "0 < ?k" using k by simp
    have k53: "?k < 2 ^ 53" using n by (rule num_winners_of_less)
    have a53: "P * 90 div 100 < 2 ^ 53" using pool(2) by (simp add: div_less_iff_less_mult)
    have "?share = Num (rat_of_nat (P * 90 div 100 div ?k))"
      by (simp only: pay js_floor_div_nat[OF a53 kpos k53])
    then show ?thesis using mp k by simp
  qed
qed

lemma sorted_wrt_take_drop:
  "sorted_wrt R xs \<Longrightarrow> \<forall>w \<in> set (take k xs). \<forall>p \<in> set (drop k xs). R w p"
  using sorted_wrt_append[of R "take k xs" "drop k xs"] by simp

lemma prefix_filter_take: "prefix (filter P (take k xs)) (filter P xs)"
proof -
  have "filter P xs = filter P (take k xs) @ filter P (drop k xs)"
    by (metis append_take_drop_id filter_append)
  then show ?thesis by (simp add: prefix_def)
qed

lemma num_winners_of_two [simp]: "num_winners_of (Suc (Suc 0)) = 1"
proof -
  have "num_winners_of 2 = 1" using num_winners_of_ceil[of 2] by simp
  then show ?thesis by (simp only: numeral_2_eq_2)
qed

lemma ranked_game_eq:
  "ranked_game =
     \<lparr>total_deposits = 10, prize_pool = 10, active = False,
       players = [\<lparr>key = 1, deposit = 5, trading_score = 1, last_active = 7\<rparr>,
                  \<lparr>key = 2, deposit = 5, trading_score = 2, last_active = 7\<rparr>],
       winners = [], game_id = 99\<rparr>"
  by (simp add: ranked_game_def fresh_game_def zeroed_def env_ok_def process_def
      initialize_def deposit_ix_def checked_add_def evaluate_trading_activity_def)

lemma tied_game_eq:
  "tied_game =
     \<lparr>total_deposits = 10, prize_pool = 10, active = False,
       players = [\<lparr>key = 2, deposit = 5, trading_score = 5, last_active = 7\<rparr>,
                  \<lparr>key = 1, deposit = 5, trading_score = 5, last_active = 7\<rparr>],
       winners = [], game_id = 99\<rparr>"
  by (simp add: tied_game_def fresh_game_def zeroed_def env_ok_def process_def
      initialize_def deposit_ix_def checked_add_def evaluate_trading_activity_def)

lemma select_winners_ranked_game:
  "select_winners env_ok two_accounts ranked_game =
     (Inr \<lparr>ws_game_id = 99, ws_winners = [2], ws_prize_per_winner = 9,
           ws_buyback_amount = 1, ws_timestamp = 7\<rparr>,
      \<lparr>total_deposits = 0, prize_pool = 0, active = True,
        players = [\<lparr>key = 1, deposit = 5, trading_score = 1, last_active = 7\<rparr>,
                   \<lparr>key = 2, deposit = 5, trading_score = 2, last_active = 7\<rparr>],
        winners = [\<lparr>key = 2, deposit = 5, trading_score = 2, last_active = 7\<rparr>],
        game_id = 99\<rparr>,
      [\<lparr>acc_key = 1, lamports = 0\<rparr>, \<lparr>acc_key = 2, lamports = 9\<rparr>])"
  by (simp add: ranked_game_eq select_winners_def env_ok_def two_accounts_def
      by_score_desc_def u64_mul_def u64_add_def checked_div_def Let_def)

lemma select_winners_tied_game:
  "select_winners env_ok two_accounts tied_game =
     (Inr \<lparr>ws_game_id = 99, ws_winners = [2], ws_prize_per_winner = 9,
           ws_buyback_amount = 1, ws_timestamp = 7\<rparr>,
      \<lparr>total_deposits = 0, prize_pool = 0, active = True,
        players = [\<lparr>key = 2, deposit = 5, trading_score = 5, last_active = 7\<rparr>,
                   \<lparr>key = 1, deposit = 5, trading_score = 5, last_active = 7\<rparr>],
        winners = [\<lparr>key = 2, deposit = 5, trading_score = 5, last_active = 7\<rparr>],
        game_id = 99\<rparr>,
      [\<lparr>acc_key = 1, lamports = 0\<rparr>, \<lparr>acc_key = 2, lamports = 9\<rparr>])"
  by (simp add: tied_game_eq select_winners_def env_ok_def two_accounts_def
      by_score_desc_def u64_mul_def u64_add_def checked_div_def Let_def)

lemma selectWinners_keys:
  assumes "selectWinners io gid db = (Inr (ws, buyback), db')"
  shows "map w_playerKey ws =
           map key_ts (take (num_winners_of (length (game_players gid db)))
             (sort_by by_tradingScore_desc (game_players gid db)))"
    and "length ws =
           length (take (num_winners_of (length (game_players gid db)))
             (sort_by by_tradingScore_desc (game_players gid db)))"
  using selectWinners_Inr[OF assms] by (auto simp: comp_def)

lemma ranked_settled_eq:
  "ranked_settled =
     \<lparr>total_deposits = 0, prize_pool = 0, active = True,
       players = [\<lparr>key = 1, deposit = 5, trading_score = 1, last_active = 7\<rparr>,
                  \<lparr>key = 2, deposit = 5, trading_score = 2, last_active = 7\<rparr>],
       winners = [\<lparr>key = 2, deposit = 5, trading_score = 2, last_active = 7\<rparr>],
       game_id = 99\<rparr>"
  by (simp add: ranked_settled_def process_def select_winners_ranked_game)

lemma tied_settled_eq:
  "tied_settled =
     \<lparr>total_deposits = 0, prize_pool = 0, active = True,
       players = [\<lparr>key = 2, deposit = 5, trading_score = 5, last_active = 7\<rparr>,
                  \<lparr>key = 1, deposit = 5, trading_score = 5, last_active = 7\<rparr>],
       winners = [\<lparr>key = 2, deposit = 5, trading_score = 5, last_active = 7\<rparr>],
       game_id = 99\<rparr>"
  by (simp add: tied_settled_def process_def select_winners_tied_game)

lemma select_winners_ranked:
  "select_winners env_ok two_accounts ranked_game = (Inr two_event, ranked_settled, two_paid)"
  by (simp add: select_winners_ranked_game ranked_settled_eq two_event_def two_paid_def)

lemma select_winners_tied:
  "select_winners env_ok two_accounts tied_game = (Inr two_event, tied_settled, two_paid)"
  by (simp add: select_winners_tied_game tied_settled_eq two_event_def two_paid_def)

lemma players_ranked_game:
  "players ranked_game =
     [\<lparr>key = 1, deposit = 5, trading_score = 1, last_active = 7\<rparr>,
      \<lparr>key = 2, deposit = 5, trading_score = 2, last_active = 7\<rparr>]"
  by (simp add: ranked_game_eq)

lemma players_tied_game:
  "players tied_game =
     [\<lparr>key = 2, deposit = 5, trading_score = 5, last_active = 7\<rparr>,
      \<lparr>key = 1, deposit = 5, trading_score = 5, last_active = 7\<rparr>]"
  by (simp add: tied_game_eq)

lemma winners_ranked_settled:
  "winners ranked_settled = [\<lparr>key = 2, deposit = 5, trading_score = 2, last_active = 7\<rparr>]"
  by (simp add: ranked_settled_eq)

lemma winners_tied_settled:
  "winners tied_settled = [\<lparr>key = 2, deposit = 5, trading_score = 5, last_active = 7\<rparr>]"
  by (simp add: tied_settled_eq)

subsection \<open>Deposits and the pool total\<close>

lemma checked_add_Some: "checked_add a b = Some c \<Longrightarrow> unat c = unat a + unat b"
  by (auto simp: checked_add_def unat_word_ariths split: if_splits)

lemma sum_update_player:
  "find_player k ps = Some e \<Longrightarrow> unat d = unat (deposit e) + a \<Longrightarrow>
   sum_list (map (\<lambda>p. unat (deposit p)) (update_player k (\<lambda>p. p\<lparr>deposit := d\<rparr>) ps))
   = sum_list (map (\<lambda>p. unat (deposit p)) ps) + a"
  by (induction ps) (auto split: if_splits)

lemma deposit_ix_conserved:
  assumes "pool_conserved gs" "deposit_ix env player amount gs = (Inr ev, gs')"
  shows "pool_conserved gs'"
  using assms
  by (auto simp: deposit_ix_def Let_def pool_conserved_def sum_deposits_def sum_update_player
      dest!: checked_add_Some
      split: option.splits sum.splits if_splits)

lemma deposit_ix_active: "active (snd (deposit_ix env player amount gs)) = active gs"
  by (simp add: deposit_ix_def Let_def split: option.splits sum.splits)

lemma deposits_update_other:
  "map deposit (update_player k (\<lambda>p. p\<lparr>trading_score := v\<rparr>) ps) = map deposit ps"
  "map deposit (update_player k (\<lambda>p. p\<lparr>last_active := t\<rparr>) ps) = map deposit ps"
  by (induction ps) auto

lemma set_scores_deposits: "map deposit (snd (set_scores env scores ps)) = map deposit ps"
  by (induction env scores ps rule: set_scores.induct)
     (auto simp: deposits_update_other Let_def split: option.splits)

lemma set_scores_sum:
  "sum_list (map (\<lambda>p. unat (deposit p)) (snd (set_scores env scores ps))) =
   sum_list (map (\<lambda>p. unat (deposit p)) ps)"
proof -
  have "map (\<lambda>p. unat (deposit p)) xs = map unat (map deposit xs)" for xs :: "Player list"
    by simp
  then show ?thesis by (simp only: set_scores_deposits)
qed

lemma evaluate_conserved:
  "sum_deposits (snd (evaluate_trading_activity env scores gs)) = sum_deposits gs"
  "total_deposits (snd (evaluate_trading_activity env scores gs)) = total_deposits gs"
  "active (snd (evaluate_trading_activity env scores gs)) = active gs"
  by (simp_all add: evaluate_trading_activity_def sum_deposits_def Let_def split_beta
        set_scores_sum split: sum.splits option.splits)

lemma process_open_conserved:
  assumes "\<not> active gs \<longrightarrow> pool_conserved gs"
  shows "\<not> active (process env ix gs) \<longrightarrow> pool_conserved (process env ix gs)"
proof (cases ix)
  case (Deposit player amount)
  obtain r gs' where d: "deposit_ix env player amount gs = (r, gs')" by (cases "deposit_ix env player amount gs")
  show ?thesis
  proof (cases r)
    case (Inl e)
    then show ?thesis using assms d Deposit by (simp add: process_def)
  next
    case (Inr ev)
    then have "process env ix gs = gs'" using d Deposit by (simp add: process_def)
    moreover have "active gs' = active gs" using deposit_ix_active[of env player amount gs] d by simp
    moreover have "pool_conserved gs \<Longrightarrow> pool_conserved gs'"
      using deposit_ix_conserved[of gs env player amount ev gs'] d Inr by simp
    ultimately show ?thesis using assms by simp
  qed
next
  case (EvaluateTradingActivity scores)
  then show ?thesis
    using assms evaluate_conserved[of env scores gs]
    by (simp add: process_def split_beta pool_conserved_def)
next
  case (SelectWinners accs)
  obtain r gs' accs' where s: "select_winners env accs gs = (r, gs', accs')"
    by (cases "select_winners env accs gs")
  show ?thesis
  proof (cases r)
    case (Inl e)
    then show ?thesis using assms s SelectWinners by (simp add: process_def)
  next
    case (Inr ev)
    then have "process env ix gs = gs'" using s SelectWinners by (simp add: process_def)
    moreover have "active gs'" using select_winners_Inr(3)[of env accs gs ev gs' accs'] s Inr by simp
    ultimately show ?thesis by simp
  qed
next
  case ResetGame
  then show ?thesis
    using assms
    by (simp add: process_def reset_game_def pool_conserved_def sum_deposits_def Let_def
        split: option.splits)
qed

lemma reachable_open_conserved: "reachable gs \<Longrightarrow> \<not> active gs \<longrightarrow> pool_conserved gs"
proof (induction rule: reachable.induct)
  case (reachable_init game_account gs0)
  show ?case by (simp add: initialize_def pool_conserved_def sum_deposits_def)
next
  case (reachable_step gs env ix)
  from reachable_step.IH show ?case by (rule process_open_conserved)
qed

lemma one_player_game_fields:
  "active one_player_game = False" "total_deposits one_player_game = 5"
  "sum_deposits one_player_game = 5"
  by (simp_all add: one_player_game_eq sum_deposits_def)

lemma settled_game_fields:
  "active settled_game = True" "total_deposits settled_game = 0"
  "sum_deposits settled_game = 5" "players settled_game = players one_player_game"
  by (simp_all add: settled_game_eq one_player_game_eq sum_deposits_def)

subsection \<open>The accounts credited by a settlement\<close>

lemma acc_key_update_first:
  "map acc_key (update_first P (\<lambda>a. a\<lparr>lamports := g a\<rparr>) xs) = map acc_key xs"
  by (induction xs) simp_all

lemma credit_Inr:
  assumes "credit oc k amt accs = Inr accs'"
  shows "accs' = update_first (\<lambda>a. acc_key a = k) (\<lambda>a. a\<lparr>lamports := lamports a + amt\<rparr>) accs"
    and "k \<in> acc_key ` set accs"
    and "oc \<longrightarrow> sum_list (map (\<lambda>a. unat (lamports a)) accs') =
           sum_list (map (\<lambda>a. unat (lamports a)) accs) + unat amt"
  using assms
proof (induction accs arbitrary: accs')
  case Nil
  {
    case 1 then show ?case by simp
  next
    case 2 then show ?case by simp
  next
    case 3 then show ?case by simp
  }
next
  case (Cons a as)
  {
    case 1
    then show ?case using Cons.IH(1)
      by (auto simp: u64_add_def split: if_splits sum.splits)
  next
    case 2
    then show ?case using Cons.IH(2)
      by (auto simp: u64_add_def split: if_splits sum.splits)
  next
    case 3
    then show ?case using Cons.IH(3)
      by (auto simp: u64_add_def unat_add_lem[THEN iffD1] split: if_splits sum.splits)
  }
qed

lemma pay_winners_Inr:
  assumes "pay_winners oc amt ws accs = (Inr u, accs')"
  shows "accs' = fold (\<lambda>w. update_first (\<lambda>a. acc_key a = key w)
                    (\<lambda>a. a\<lparr>lamports := lamports a + amt\<rparr>)) ws accs"
    and "key ` set ws \<subseteq> acc_key ` set accs"
    and "oc \<longrightarrow> sum_list (map (\<lambda>a. unat (lamports a)) accs') =
           sum_list (map (\<lambda>a. unat (lamports a)) accs) + length ws * unat amt"
  using assms
proof (induction ws arbitrary: accs)
  case Nil
  {
    case 1 then show ?case by simp
  next
    case 2 then show ?case by simp
  next
    case 3 then show ?case by simp
  }
next
  case (Cons w ws)
  {
    case 1
    then obtain accs1 where c: "credit oc (key w) amt accs = Inr accs1"
      and p: "pay_winners oc amt ws accs1 = (Inr u, accs')"
      by (auto split: sum.splits)
    show ?case using Cons.IH(1)[OF p] credit_Inr(1)[OF c] by simp
  next
    case 2
    then obtain accs1 where c: "credit oc (key w) amt accs = Inr accs1"
      and p: "pay_winners oc amt ws accs1 = (Inr u, accs')"
      by (auto split: sum.splits)
    have "map acc_key accs1 = map acc_key accs"
      using credit_Inr(1)[OF c] by (simp add: acc_key_update_first)
    then have "acc_key ` set accs1 = acc_key ` set accs" by (metis list.set_map)
    then show ?case using Cons.IH(2)[OF p] credit_Inr(2)[OF c] by simp
  next
    case 3
    then obtain accs1 where c: "credit oc (key w) amt accs = Inr accs1"
      and p: "pay_winners oc amt ws accs1 = (Inr u, accs')"
      by (auto split: sum.splits)
    show ?case using Cons.IH(3)[OF p] credit_Inr(3)[OF c] by simp
  }
qed

lemma find_update_first_key:
  "find (\<lambda>a. acc_key a = k) (update_first (\<lambda>a. acc_key a = k') (\<lambda>a. a\<lparr>lamports := g a\<rparr>) xs) =
     (if k = k' then map_option (\<lambda>a. a\<lparr>lamports := g a\<rparr>) (find (\<lambda>a. acc_key a = k) xs)
      else find (\<lambda>a. acc_key a = k) xs)"
  by (induction xs) auto

lemma find_fold_credit:
  "distinct (map key ws) \<Longrightarrow>
     find (\<lambda>a. acc_key a = k)
       (fold (\<lambda>w. update_first (\<lambda>a. acc_key a = key w)
                (\<lambda>a. a\<lparr>lamports := lamports a + amt\<rparr>)) ws accs) =
     (if k \<in> key ` set ws
      then map_option (\<lambda>a. a\<lparr>lamports := lamports a + amt\<rparr>) (find (\<lambda>a. acc_key a = k) accs)
      else find (\<lambda>a. acc_key a = k) accs)"
proof (induction ws arbitrary: accs)
  case Nil
  then show ?case by simp
next
  case (Cons w ws)
  then show ?case by (auto simp: find_update_first_key)
qed

lemma select_winners_paid:
  assumes "select_winners env accs gs = (Inr ev, gs', accs')"
  shows "pay_winners (overflow_checks env) (ws_prize_per_winner ev) (winners gs') accs =
           (Inr (), accs')"
  using assms
  by (auto simp: select_winners_def Let_def u64_mul_def checked_div_def
      split: if_splits sum.splits option.splits prod.splits)

lemma distinct_sort_by: "distinct (map f (sort_by lt xs)) = distinct (map f xs)"
proof -
  have "mset (map f (sort_by lt xs)) = mset (map f xs)" by simp
  then show ?thesis by (rule mset_eq_imp_distinct_iff)
qed



lemma floor_big:
  "\<lfloor>(9007199254741725::rat) / 2\<rfloor> = 4503599627370862"
  "\<lfloor>(9007199254741724::rat) / 25\<rfloor> = 360287970189668"
  "\<lfloor>(144115188075867584::rat) / 25\<rfloor> = 5764607523034703"
  "\<lfloor>(5764607523034703::rat) / 16\<rfloor> = 360287970189668"
  using floor_divide_of_int_eq[of 9007199254741725 2, where ?'a = rat]
    floor_divide_of_int_eq[of 9007199254741724 25, where ?'a = rat]
    floor_divide_of_int_eq[of 144115188075867584 25, where ?'a = rat]
    floor_divide_of_int_eq[of 5764607523034703 16, where ?'a = rat]
  by simp_all

lemma ilog2_big: "ilog2 36028797018966900 = 55"
  by (simp add: ilog2_def compute_floorlog)

lemma js_mul_big: "js_mul (Num 400319966877410) (Num 90) = Num 36028797018966896"
  by (simp add: js_mul.simps f64_of_rat_def f64_of_pos_def ilog2_big Let_def round_half_even_def floor_big)

lemma ilog2_big_quotient: "ilog2 (9007199254741724 / 25) = 48"
  by (simp add: ilog2_def floor_big compute_floorlog)

lemma js_div_big: "js_div (Num 36028797018966896) (Num 100) = Num (5764607523034703 / 16)"
  by (simp add: js_div.simps f64_of_rat_def f64_of_pos_def Let_def round_half_even_def ilog2_big_quotient floor_big)

lemma js_share_big:
  "js_floor (js_div (js_mul (Num 400319966877410) (Num 90)) (Num 100)) = Num 360287970189668"
  by (simp add: js_mul_big js_div_big floor_big)

lemma winners_settled_game:
  "winners settled_game = [\<lparr>key = 1, deposit = 5, trading_score = 0, last_active = 7\<rparr>]"
  by (simp add: settled_game_eq)

subsection \<open>The two-player rounds of the backend\<close>

lemma js_share_10_90: "js_floor (js_div (js_mul (Num 10) (Num 90)) (Num 100)) = Num 9"
  using js_pool_share[of 10 90] by simp

lemma js_share_10_10: "js_floor (js_div (js_mul (Num 10) (Num 10)) (Num 100)) = Num 1"
  using js_pool_share[of 10 10] by simp

lemma js_floor_div_9_1: "js_floor (js_div (Num 9) (Num 1)) = Num 9"
  using js_floor_div_nat[of 9 1] by simp

lemma ts_game_10_fields: "prizePool ts_game_10 = Num 10" "\<not> active_ts ts_game_10"
  by (simp_all add: ts_game_10_def)

lemma game_players_ts_ranked: "game_players ''g'' ts_ranked = [ts_player_a 1, ts_player_b 2]"
  by (simp add: ts_ranked_def game_players_def ts_player_a_def ts_player_b_def)

lemma game_players_ts_tied: "game_players ''g'' ts_tied = [ts_player_b 5, ts_player_a 5]"
  by (simp add: ts_tied_def game_players_def ts_player_a_def ts_player_b_def)

lemma find_game_ts_ranked:
  "find (\<lambda>g. gameId g = ''g'') (gameStates ts_ranked) = Some ts_game_10"
  by (simp add: ts_ranked_def ts_game_10_def)

lemma find_game_ts_tied:
  "find (\<lambda>g. gameId g = ''g'') (gameStates ts_tied) = Some ts_game_10"
  by (simp add: ts_tied_def ts_game_10_def)

lemma sort_ts_ranked:
  "sort_by by_tradingScore_desc [ts_player_a 1, ts_player_b 2] = [ts_player_b 2, ts_player_a 1]"
  by (simp add: by_tradingScore_desc_def ts_player_a_def ts_player_b_def)

lemma sort_ts_tied:
  "sort_by by_tradingScore_desc [ts_player_b 5, ts_player_a 5] = [ts_player_b 5, ts_player_a 5]"
  by (simp add: by_tradingScore_desc_def ts_player_a_def ts_player_b_def)

lemma selectWinners_ts_ranked:
  "selectWinners [] ''g'' ts_ranked = (Inr ([ts_winner_b], Num 1), ts_ranked_settled)"
  by (simp add: selectWinners_def find_game_ts_ranked game_players_ts_ranked Let_def
        ts_game_10_fields js_share_10_90 js_share_10_10 js_floor_div_9_1
        by_tradingScore_desc_def ts_player_a_def ts_player_b_def)
     (simp add: ts_ranked_def ts_ranked_settled_def ts_game_10_def ts_player_a_def
       ts_player_b_def ts_winner_b_def save_game_def save_winner_def)

lemma selectWinners_ts_tied:
  "selectWinners [] ''g'' ts_tied = (Inr ([ts_winner_b], Num 1), ts_tied_settled)"
  by (simp add: selectWinners_def find_game_ts_tied game_players_ts_tied Let_def
        ts_game_10_fields js_share_10_90 js_share_10_10 js_floor_div_9_1
        by_tradingScore_desc_def ts_player_a_def ts_player_b_def)
     (simp add: ts_tied_def ts_tied_settled_def ts_game_10_def ts_player_a_def
       ts_player_b_def ts_winner_b_def save_game_def save_winner_def)

subsection \<open>The ranking is the stable sort by descending score\<close>

lemma sort_by_score_sort_key:
  "sort_by by_score_desc xs = sort_key (\<lambda>p. - int (unat (trading_score p))) xs"
proof (rule properties_for_sort_key[symmetric])
  show "mset (sort_by by_score_desc xs) = mset xs" by simp
  show "filter (\<lambda>x. - int (unat (trading_score k)) = - int (unat (trading_score x)))
          (sort_by by_score_desc xs) =
        filter (\<lambda>x. - int (unat (trading_score k)) = - int (unat (trading_score x))) xs" for k
    using sort_by_score_stable[of "trading_score k" xs]
    by (simp add: eq_commute word_uint_eq_iff[symmetric])
  have "sorted_wrt (\<lambda>a b. - int (unat (trading_score a)) \<le> - int (unat (trading_score b)))
          (sort_by by_score_desc xs)"
    using sorted_sort_by_score[of xs] by (simp add: word_le_def)
  then show "sorted (map (\<lambda>p. - int (unat (trading_score p))) (sort_by by_score_desc xs))"
    by (simp add: sorted_map)
qed

lemma sort_by_tradingScore_sort_key:
  "sort_by by_tradingScore_desc xs = sort_key (\<lambda>p. - tradingScore p) xs"
proof (rule properties_for_sort_key[symmetric])
  show "mset (sort_by by_tradingScore_desc xs) = mset xs" by simp
  show "filter (\<lambda>x. - tradingScore k = - tradingScore x) (sort_by by_tradingScore_desc xs) =
        filter (\<lambda>x. - tradingScore k = - tradingScore x) xs" for k
    using sort_by_tradingScore_stable[of "tradingScore k" xs] by (simp add: eq_commute)
  have "sorted_wrt (\<lambda>a b. - tradingScore a \<le> - tradingScore b) (sort_by by_tradingScore_desc xs)"
    using sorted_sort_by_tradingScore[of xs] by simp
  then show "sorted (map (\<lambda>p. - tradingScore p) (sort_by by_tradingScore_desc xs))"
    by (simp add: sorted_map)
qed

lemma sort_ranked_game:
  "sort_by by_score_desc
     [\<lparr>key = 1, deposit = 5, trading_score = 1, last_active = 7\<rparr>,
      \<lparr>key = 2, deposit = 5, trading_score = 2, last_active = 7\<rparr>] =
     [\<lparr>key = 2, deposit = 5, trading_score = 2, last_active = 7\<rparr>,
      \<lparr>key = 1, deposit = 5, trading_score = 1, last_active = 7\<rparr>]"
  by (simp add: by_score_desc_def)

lemma sort_tied_game:
  "sort_by by_score_desc
     [\<lparr>key = 2, deposit = 5, trading_score = 5, last_active = 7\<rparr>,
      \<lparr>key = 1, deposit = 5, trading_score = 5, last_active = 7\<rparr>] =
     [\<lparr>key = 2, deposit = 5, trading_score = 5, last_active = 7\<rparr>,
      \<lparr>key = 1, deposit = 5, trading_score = 5, last_active = 7\<rparr>]"
  by (simp add: by_score_desc_def)

subsection \<open>The pool total and the recorded deposits in every reachable state\<close>

lemma deposit_ix_delta:
  assumes "deposit_ix env player amount gs = (Inr ev, gs')"
  shows "unat (total_deposits gs') = unat (total_deposits gs) + unat amount"
    and "sum_deposits gs' = sum_deposits gs + unat amount"
    and "active gs' = active gs"
  using assms
  by (auto simp: deposit_ix_def Let_def sum_deposits_def sum_update_player
      dest!: checked_add_Some
      split: option.splits sum.splits if_splits)

lemma evaluate_Inr:
  assumes "evaluate_trading_activity env scores gs = (r, gs')"
  shows "total_deposits gs' = total_deposits gs" and "sum_deposits gs' = sum_deposits gs"
    and "map deposit (players gs') = map deposit (players gs)" and "active gs' = active gs"
proof -
  have e: "gs' = snd (evaluate_trading_activity env scores gs)" using assms by simp
  show "total_deposits gs' = total_deposits gs" "sum_deposits gs' = sum_deposits gs"
    "active gs' = active gs"
    unfolding e by (rule evaluate_conserved)+
  show "map deposit (players gs') = map deposit (players gs)"
    unfolding e
    using set_scores_deposits[of env scores "players gs"]
    by (simp add: evaluate_trading_activity_def Let_def split_beta
        split: sum.splits option.splits)
qed

lemma reset_game_Inr:
  assumes "reset_game env gs = (Inr ev, gs')"
  shows "active gs" and "players gs' = []" and "winners gs' = []"
    and "total_deposits gs' = 0" and "prize_pool gs' = 0" and "\<not> active gs'"
  using assms by (auto simp: reset_game_def Let_def split: if_splits option.splits)

lemma process_pool_bound:
  assumes "unat (total_deposits gs) \<le> sum_deposits gs"
  shows "unat (total_deposits (process env ix gs)) \<le> sum_deposits (process env ix gs)"
proof (cases ix)
  case (Deposit player amount)
  obtain r gs' where d: "deposit_ix env player amount gs = (r, gs')"
    by (cases "deposit_ix env player amount gs")
  show ?thesis
  proof (cases r)
    case (Inl e)
    then show ?thesis using assms d Deposit by (simp add: process_def)
  next
    case (Inr ev)
    then have "process env ix gs = gs'" using d Deposit by (simp add: process_def)
    then show ?thesis using assms deposit_ix_delta(1,2)[of env player amount gs ev gs'] d Inr
      by simp
  qed
next
  case (EvaluateTradingActivity scores)
  then show ?thesis
    using assms evaluate_conserved[of env scores gs]
    by (simp add: process_def split_beta)
next
  case (SelectWinners accs)
  obtain r gs' accs' where s: "select_winners env accs gs = (r, gs', accs')"
    by (cases "select_winners env accs gs")
  show ?thesis
  proof (cases r)
    case (Inl e)
    then show ?thesis using assms s SelectWinners by (simp add: process_def)
  next
    case (Inr ev)
    then have "process env ix gs = gs'" using s SelectWinners by (simp add: process_def)
    moreover have "total_deposits gs' = 0"
      using select_winners_Inr(3)[of env accs gs ev gs' accs'] s Inr by simp
    ultimately show ?thesis by simp
  qed
next
  case ResetGame
  then show ?thesis
    using assms
    by (simp add: process_def reset_game_def sum_deposits_def Let_def split: option.splits)
qed

lemma reachable_pool_bound: "reachable gs \<Longrightarrow> unat (total_deposits gs) \<le> sum_deposits gs"
proof (induction rule: reachable.induct)
  case (reachable_init game_account gs0)
  show ?case by (simp add: initialize_def sum_deposits_def)
next
  case (reachable_step gs env ix)
  from reachable_step.IH show ?case by (rule process_pool_bound)
qed

lemma deposit_settled_game:
  "deposit_ix env_ok 3 4 settled_game =
     (Inr \<lparr>de_player = 3, de_amount = 4, de_timestamp = 7\<rparr>,
      \<lparr>total_deposits = 4, prize_pool = 4, active = True,
        players = [\<lparr>key = 1, deposit = 5, trading_score = 0, last_active = 7\<rparr>,
                   \<lparr>key = 3, deposit = 4, trading_score = 0, last_active = 7\<rparr>],
        winners = [\<lparr>key = 1, deposit = 5, trading_score = 0, last_active = 7\<rparr>],
        game_id = 99\<rparr>)"
  by (simp add: settled_game_eq deposit_ix_def env_ok_def checked_add_def Let_def)

lemma reset_settled_game:
  "reset_game env_ok settled_game =
     (Inr \<lparr>gr_game_id = 99, gr_timestamp = 7\<rparr>,
      \<lparr>total_deposits = 0, prize_pool = 0, active = False, players = [], winners = [],
        game_id = 99\<rparr>)"
  by (simp add: settled_game_eq reset_game_def env_ok_def Let_def)

lemma evaluate_one_player_game:
  "evaluate_trading_activity env_ok [(Suc 0, 3)] one_player_game =
     (Inr \<lparr>te_game_id = 99, te_timestamp = 7\<rparr>,
      \<lparr>total_deposits = 5, prize_pool = 5, active = False,
        players = [\<lparr>key = 1, deposit = 5, trading_score = 3, last_active = 7\<rparr>],
        winners = [], game_id = 99\<rparr>)"
  by (simp add: one_player_game_eq evaluate_trading_activity_def env_ok_def Let_def)

section \<open>Properties\<close>

subsection \<open>The prize pool mirrors the deposits\<close>

lemma deposit_ix_pool:
  "prize_pool gs = total_deposits gs \<Longrightarrow>
   prize_pool (snd (deposit_ix env player amount gs)) =
   total_deposits (snd (deposit_ix env player amount gs))"
  by (simp add: deposit_ix_def Let_def split: option.splits sum.splits)

lemma evaluate_pool:
  "prize_pool (snd (evaluate_trading_activity env scores gs)) = prize_pool gs \<and>
   total_deposits (snd (evaluate_trading_activity env scores gs)) = total_deposits gs"
  by (simp add: evaluate_trading_activity_def Let_def split: option.splits sum.splits prod.splits)

lemma select_pool:
  "prize_pool gs = total_deposits gs \<Longrightarrow>
   prize_pool (fst (snd (select_winners env accs gs))) =
   total_deposits (fst (snd (select_winners env accs gs)))"
  by (simp add: select_winners_def Let_def split: option.splits sum.splits prod.splits)

lemma reset_pool:
  "prize_pool gs = total_deposits gs \<Longrightarrow>
   prize_pool (snd (reset_game env gs)) = total_deposits (snd (reset_game env gs))"
  by (simp add: reset_game_def Let_def split: option.splits)

lemma handler_state_pool:
  "prize_pool gs = total_deposits gs \<Longrightarrow>
   prize_pool (snd (handler_state env ix gs)) = total_deposits (snd (handler_state env ix gs))"
  using deposit_ix_pool[of gs env] evaluate_pool[of env _ gs] select_pool[of gs env]
    reset_pool[of gs env]
  by (cases ix) (simp_all add: split_beta)

lemma reachable_pool: "reachable gs \<Longrightarrow> prize_pool gs = total_deposits gs"
proof (induction rule: reachable.induct)
  case (reachable_init game_account gs0)
  show ?case by (simp add: initialize_def)
next
  case (reachable_step gs env ix)
  then show ?case
    using handler_state_pool[of gs env ix]
    by (simp add: process_def split_beta)
qed

text \<open>
  C10. In every state the game account can reach from \<^verbatim>\<open>initialize\<close>,
  \<open>prize_pool\<close> equals \<open>total_deposits\<close>; and whatever instruction runs next,
  the two fields are equal again in the state its handler returns with, whether it
  returns \<^verbatim>\<open>Ok\<close> or \<^verbatim>\<open>Err\<close>.
\<close>

theorem prize_pool_eq_total_deposits:
  "reachable gs \<Longrightarrow>
     prize_pool gs = total_deposits gs \<and>
     prize_pool (snd (handler_state env ix gs)) = total_deposits (snd (handler_state env ix gs))"
  using reachable_pool[of gs] handler_state_pool[of gs env ix] by simp

theorem prize_pool_eq_total_deposits_witness:
  "reachable one_player_game \<and>
   prize_pool one_player_game = 5 \<and> total_deposits one_player_game = 5 \<and>
   prize_pool (snd (handler_state env_ok ResetGame one_player_game)) =
   total_deposits (snd (handler_state env_ok ResetGame one_player_game))"
  using prize_pool_eq_total_deposits[OF reachable_one_player_game, of env_ok ResetGame]
    reachable_one_player_game
  by (simp add: one_player_game_eq)

subsection \<open>The number of winners\<close>

text \<open>
  C6. For a round with \<open>n > 0\<close> participants (\<open>n < 2^53\<close>, the range in which a
  count is a binary64 number; a player list in an account is far shorter), a settlement
  that succeeds selects exactly \<open>\<lceil>n / 10\<rceil>\<close> winners, at least one, on chain and in
  the backend alike; the count computed for 1 to 10 participants is 1 and for 11 it is 2.
\<close>

theorem minimum_winner_rule:
  assumes "0 < n" and "n < 2 ^ 53"
  shows "(select_winners env accs gs = (Inr ev, gs', accs') \<and> length (players gs) = n \<longrightarrow>
            int (length (winners gs')) = \<lceil>real n / 10\<rceil> \<and> 1 \<le> length (winners gs') \<and>
            length (ws_winners ev) = length (winners gs')) \<and>
         (selectWinners io gid db = (Inr (ws, buyback), db') \<and>
            length (game_players gid db) = n \<longrightarrow>
            int (length ws) = \<lceil>real n / 10\<rceil> \<and> 1 \<le> length ws) \<and>
         map num_winners_of [1, 2, 3, 4, 5, 6, 7, 8, 9, 10, 11] =
           [1, 1, 1, 1, 1, 1, 1, 1, 1, 1, 2]"
proof (intro conjI impI)
  assume a: "select_winners env accs gs = (Inr ev, gs', accs') \<and> length (players gs) = n"
  then have l: "length (winners gs') = (n + 9) div 10"
    using select_winners_Inr(3)[of env accs gs ev gs' accs']
      length_take_winners[of "players gs" by_score_desc] assms(2)
    by simp
  show "int (length (winners gs')) = \<lceil>real n / 10\<rceil>" using l by (simp add: ceil_tenth)
  show "1 \<le> length (winners gs')" using l assms(1) by simp
  show "length (ws_winners ev) = length (winners gs')"
    using a select_winners_Inr(3,4)[of env accs gs ev gs' accs'] by simp
next
  assume a: "selectWinners io gid db = (Inr (ws, buyback), db') \<and>
    length (game_players gid db) = n"
  then have l: "length ws = (n + 9) div 10"
    using selectWinners_Inr[of io gid db ws buyback db']
      length_take_winners[of "game_players gid db" by_tradingScore_desc] assms(2)
    by auto
  show "int (length ws) = \<lceil>real n / 10\<rceil>" using l by (simp add: ceil_tenth)
  show "1 \<le> length ws" using l assms(1) by simp
next
  show "map num_winners_of [1, 2, 3, 4, 5, 6, 7, 8, 9, 10, 11] =
           [1, 1, 1, 1, 1, 1, 1, 1, 1, 1, 2]"
    by (rule num_winners_of_upto_11)
qed

theorem minimum_winner_rule_witness:
  "(0::nat) < 1 \<and> (1::nat) < 2 ^ 53 \<and>
   select_winners env_ok [winner_account_1] one_player_game =
     (Inr one_player_event, settled_game, [\<lparr>acc_key = 1, lamports = 4\<rparr>]) \<and>
   length (players one_player_game) = 1 \<and>
   length (winners settled_game) = 1 \<and>
   selectWinners [] ''g'' ts_one_player = (Inr ([ts_winner], Num 0), ts_settled) \<and>
   length (game_players ''g'' ts_one_player) = 1 \<and>
   \<lceil>real 1 / 10\<rceil> = (1::int)"
  using minimum_winner_rule[of 1 env_ok "[winner_account_1]" one_player_game
      one_player_event settled_game "[\<lparr>acc_key = 1, lamports = 4\<rparr>]"
      "[]" "''g''" ts_one_player "[ts_winner]" "Num 0" ts_settled]
  by (simp add: select_winners_settled selectWinners_ts_one_player players_one_player_game
      game_players_ts_one_player)

subsection \<open>How a settlement splits the pool\<close>

text \<open>
  C3, as amended. On chain, a settlement of a pool \<open>P\<close> (with \<open>P * 90\<close> inside \<^verbatim>\<open>u64\<close> and
  fewer than \<open>2^53\<close> players) sets the payout pool to \<open>\<lfloor>P * 90 / 100\<rfloor>\<close> and the burn to
  \<open>\<lfloor>P * 10 / 100\<rfloor>\<close> and nothing is added to the burn: the two sum to \<open>P\<close> when 10 divides
  \<open>P\<close> and to \<open>P - 1\<close> otherwise. There are \<open>k = \<lceil>n / 10\<rceil> \<ge> 1\<close> winners; for each of them,
  in order, the first of the passed accounts that carries the winner's key is credited
  \<open>\<lfloor>payout pool / k\<rfloor>\<close> (an addition modulo \<open>2^64\<close>, exact when overflow checks are on, where
  the balances of the passed accounts grow by \<open>k * \<lfloor>payout pool / k\<rfloor>\<close> in total); with
  distinct player keys that is one credit on each winner's account. So the winners
  together receive at most the payout pool and fall short of it by at most \<open>k - 1\<close>.

  The backend computes the same amounts in binary64. For a pool that is a whole number
  \<open>P\<close> with \<open>P * 90 < 2^53\<close> and fewer than \<open>2^53\<close> players, the amount handed to the burn is
  \<open>\<lfloor>P * 10 / 100\<rfloor>\<close>, and the winner rows written are \<open>k = \<lceil>n / 10\<rceil>\<close> rows with the prize
  \<open>\<lfloor>\<lfloor>P * 90 / 100\<rfloor> / k\<rfloor>\<close>; with no player there is no winner row and the payout pool is
  paid to no one. For larger pools the products are rounded: the pool 400319966877410
  has the payout pool 360287970189668, one less than \<open>\<lfloor>P * 90 / 100\<rfloor>\<close>.
\<close>

theorem settlement_value_split:
  "(select_winners env accs gs = (Inr ev, gs', accs') \<and>
      unat (prize_pool gs) * 90 < 2 ^ 64 \<and> length (players gs) < 2 ^ 53 \<longrightarrow>
      (let P = unat (prize_pool gs); payout_pool = P * 90 div 100; burn = P * 10 div 100;
           k = length (winners gs'); each = unat (ws_prize_per_winner ev)
       in unat (ws_buyback_amount ev) = burn \<and> each = payout_pool div k \<and>
          k = (length (players gs) + 9) div 10 \<and> 0 < k \<and>
          payout_pool + burn + (if 10 dvd P then 0 else 1) = P \<and>
          k * each \<le> payout_pool \<and> payout_pool - k * each \<le> k - 1 \<and>
          accs' = fold (\<lambda>w. update_first (\<lambda>a. acc_key a = key w)
                          (\<lambda>a. a\<lparr>lamports := lamports a + ws_prize_per_winner ev\<rparr>))
                    (winners gs') accs \<and>
          key ` set (winners gs') \<subseteq> acc_key ` set accs \<and>
          (overflow_checks env \<longrightarrow>
             sum_list (map (\<lambda>a. unat (lamports a)) accs') =
               sum_list (map (\<lambda>a. unat (lamports a)) accs) + k * each) \<and>
          (distinct (map key (players gs)) \<longrightarrow>
             (\<forall>w \<in> set (winners gs').
                find (\<lambda>a. acc_key a = key w) accs' =
                  map_option (\<lambda>a. a\<lparr>lamports := lamports a + ws_prize_per_winner ev\<rparr>)
                    (find (\<lambda>a. acc_key a = key w) accs))))) \<and>
   (selectWinners io gid db = (Inr (ws, buyback), db') \<and>
      find (\<lambda>g. gameId g = gid) (gameStates db) = Some game \<and>
      prizePool game = Num (rat_of_nat P) \<and> P * 90 < 2 ^ 53 \<and>
      length (game_players gid db) < 2 ^ 53 \<longrightarrow>
      (let payout_pool = P * 90 div 100; burn = P * 10 div 100; k = length ws;
           each = payout_pool div k
       in buyback = Num (rat_of_nat burn) \<and>
          k = (length (game_players gid db) + 9) div 10 \<and>
          map w_prize ws = replicate k (Num (rat_of_nat each)) \<and>
          winnerRows db' = winnerRows db @ ws \<and>
          payout_pool + burn + (if 10 dvd P then 0 else 1) = P \<and>
          k * each \<le> payout_pool \<and>
          (0 < length (game_players gid db) \<longrightarrow> 0 < k \<and> payout_pool - k * each \<le> k - 1))) \<and>
   js_floor (js_div (js_mul (Num 400319966877410) (Num 90)) (Num 100)) = Num 360287970189668 \<and>
   (400319966877410 * 90 div 100 :: nat) = 360287970189669"
proof (intro conjI impI)
  assume a: "select_winners env accs gs = (Inr ev, gs', accs') \<and>
      unat (prize_pool gs) * 90 < 2 ^ 64 \<and> length (players gs) < 2 ^ 53"
  then have ok: "select_winners env accs gs = (Inr ev, gs', accs')"
    and pool: "unat (prize_pool gs) * 90 < 2 ^ 64" and n: "length (players gs) < 2 ^ 53"
    by simp_all
  note am = select_winners_amounts[OF ok pool n]
  let ?s = "sort_by by_score_desc (players gs)"
  let ?k = "num_winners_of (length (players gs))"
  have w: "winners gs' = take ?k ?s" using select_winners_Inr(3)[OF ok] by simp
  have kw: "length (ws_winners ev) = length (winners gs')"
    using select_winners_Inr(4)[OF ok] w by simp
  have kc: "length (winners gs') = (length (players gs) + 9) div 10"
    using w length_winners_eq_count[OF n] num_winners_of_ceil[OF n] by simp
  note pw = pay_winners_Inr[OF select_winners_paid[OF ok]]
  have each: "\<forall>w \<in> set (winners gs').
                find (\<lambda>a. acc_key a = key w) accs' =
                  map_option (\<lambda>a. a\<lparr>lamports := lamports a + ws_prize_per_winner ev\<rparr>)
                    (find (\<lambda>a. acc_key a = key w) accs)"
    if d: "distinct (map key (players gs))"
  proof -
    have "distinct (map key ?s)" using d by (simp only: distinct_sort_by)
    then have dw: "distinct (map key (winners gs'))"
      unfolding w take_map[symmetric] by (rule distinct_take)
    show ?thesis by (subst pw(1)) (simp add: find_fold_credit[OF dw])
  qed
  show "let P = unat (prize_pool gs); payout_pool = P * 90 div 100; burn = P * 10 div 100;
           k = length (winners gs'); each = unat (ws_prize_per_winner ev)
       in unat (ws_buyback_amount ev) = burn \<and> each = payout_pool div k \<and>
          k = (length (players gs) + 9) div 10 \<and> 0 < k \<and>
          payout_pool + burn + (if 10 dvd P then 0 else 1) = P \<and>
          k * each \<le> payout_pool \<and> payout_pool - k * each \<le> k - 1 \<and>
          accs' = fold (\<lambda>w. update_first (\<lambda>a. acc_key a = key w)
                          (\<lambda>a. a\<lparr>lamports := lamports a + ws_prize_per_winner ev\<rparr>))
                    (winners gs') accs \<and>
          key ` set (winners gs') \<subseteq> acc_key ` set accs \<and>
          (overflow_checks env \<longrightarrow>
             sum_list (map (\<lambda>a. unat (lamports a)) accs') =
               sum_list (map (\<lambda>a. unat (lamports a)) accs) + k * each) \<and>
          (distinct (map key (players gs)) \<longrightarrow>
             (\<forall>w \<in> set (winners gs').
                find (\<lambda>a. acc_key a = key w) accs' =
                  map_option (\<lambda>a. a\<lparr>lamports := lamports a + ws_prize_per_winner ev\<rparr>)
                    (find (\<lambda>a. acc_key a = key w) accs)))"
    unfolding Let_def
  proof (intro conjI)
    show "unat (ws_buyback_amount ev) = unat (prize_pool gs) * 10 div 100" by (rule am(1))
    show "unat (ws_prize_per_winner ev) =
            unat (prize_pool gs) * 90 div 100 div length (winners gs')"
      using am(2) kw by simp
    show "length (winners gs') = (length (players gs) + 9) div 10" by (rule kc)
    show "0 < length (winners gs')" using am(3) kw by simp
    show "unat (prize_pool gs) * 90 div 100 + unat (prize_pool gs) * 10 div 100 +
            (if 10 dvd unat (prize_pool gs) then 0 else 1) = unat (prize_pool gs)"
      by (rule split_residual_nat)
    have sr: "length (winners gs') * (unat (prize_pool gs) * 90 div 100 div length (winners gs'))
                \<le> unat (prize_pool gs) * 90 div 100 \<and>
              unat (prize_pool gs) * 90 div 100 -
                length (winners gs') * (unat (prize_pool gs) * 90 div 100 div length (winners gs'))
                \<le> length (winners gs') - 1"
      using am(3) kw by (intro share_residual_nat) simp
    show "length (winners gs') * unat (ws_prize_per_winner ev) \<le> unat (prize_pool gs) * 90 div 100"
      using sr am(2) kw by simp
    show "unat (prize_pool gs) * 90 div 100 - length (winners gs') * unat (ws_prize_per_winner ev)
            \<le> length (winners gs') - 1"
      using sr am(2) kw by simp
    show "accs' = fold (\<lambda>w. update_first (\<lambda>a. acc_key a = key w)
                          (\<lambda>a. a\<lparr>lamports := lamports a + ws_prize_per_winner ev\<rparr>))
                    (winners gs') accs"
      by (rule pw(1))
    show "key ` set (winners gs') \<subseteq> acc_key ` set accs" by (rule pw(2))
    show "overflow_checks env \<longrightarrow>
             sum_list (map (\<lambda>a. unat (lamports a)) accs') =
               sum_list (map (\<lambda>a. unat (lamports a)) accs) +
               length (winners gs') * unat (ws_prize_per_winner ev)"
      by (rule pw(3))
    show "distinct (map key (players gs)) \<longrightarrow>
             (\<forall>w \<in> set (winners gs').
                find (\<lambda>a. acc_key a = key w) accs' =
                  map_option (\<lambda>a. a\<lparr>lamports := lamports a + ws_prize_per_winner ev\<rparr>)
                    (find (\<lambda>a. acc_key a = key w) accs))"
      using each by blast
  qed
next
  assume a: "selectWinners io gid db = (Inr (ws, buyback), db') \<and>
      find (\<lambda>g. gameId g = gid) (gameStates db) = Some game \<and>
      prizePool game = Num (rat_of_nat P) \<and> P * 90 < 2 ^ 53 \<and>
      length (game_players gid db) < 2 ^ 53"
  then have ok: "selectWinners io gid db = (Inr (ws, buyback), db')"
    and game: "find (\<lambda>g. gameId g = gid) (gameStates db) = Some game"
    and pool: "prizePool game = Num (rat_of_nat P)" "P * 90 < 2 ^ 53"
    and n: "length (game_players gid db) < 2 ^ 53"
    by simp_all
  note am = selectWinners_amounts[OF ok game pool n]
  have rows: "winnerRows db' = winnerRows db @ ws"
    using selectWinners_Inr[OF ok] by (auto simp: save_game_def)
  show "let payout_pool = P * 90 div 100; burn = P * 10 div 100; k = length ws;
           each = payout_pool div k
       in buyback = Num (rat_of_nat burn) \<and>
          k = (length (game_players gid db) + 9) div 10 \<and>
          map w_prize ws = replicate k (Num (rat_of_nat each)) \<and>
          winnerRows db' = winnerRows db @ ws \<and>
          payout_pool + burn + (if 10 dvd P then 0 else 1) = P \<and>
          k * each \<le> payout_pool \<and>
          (0 < length (game_players gid db) \<longrightarrow> 0 < k \<and> payout_pool - k * each \<le> k - 1)"
    unfolding Let_def
  proof (intro conjI impI)
    show "buyback = Num (rat_of_nat (P * 10 div 100))" by (rule am(1))
    show "length ws = (length (game_players gid db) + 9) div 10" by (rule am(2))
    show "map w_prize ws = replicate (length ws) (Num (rat_of_nat (P * 90 div 100 div length ws)))"
      by (rule am(3))
    show "winnerRows db' = winnerRows db @ ws" by (rule rows)
    show "P * 90 div 100 + P * 10 div 100 + (if 10 dvd P then 0 else 1) = P"
      by (rule split_residual_nat)
    show "length ws * (P * 90 div 100 div length ws) \<le> P * 90 div 100" by simp
    assume "0 < length (game_players gid db)"
    then have "0 < (length (game_players gid db) + 9) div 10" by linarith
    then show k: "0 < length ws" by (simp only: am(2))
    show "P * 90 div 100 - length ws * (P * 90 div 100 div length ws) \<le> length ws - 1"
      using share_residual_nat[OF k, of "P * 90 div 100"] by simp
  qed
next
  show "js_floor (js_div (js_mul (Num 400319966877410) (Num 90)) (Num 100)) = Num 360287970189668"
    by (rule js_share_big)
  show "(400319966877410 * 90 div 100 :: nat) = 360287970189669" by simp
qed

theorem settlement_value_split_witness:
  "select_winners env_ok [winner_account_1] one_player_game =
     (Inr one_player_event, settled_game, [\<lparr>acc_key = 1, lamports = 4\<rparr>]) \<and>
   unat (prize_pool one_player_game) * 90 < 2 ^ 64 \<and> length (players one_player_game) < 2 ^ 53 \<and>
   overflow_checks env_ok \<and> distinct (map key (players one_player_game)) \<and>
   winners settled_game = [\<lparr>key = 1, deposit = 5, trading_score = 0, last_active = 7\<rparr>] \<and>
   unat (prize_pool one_player_game) = 5 \<and>
   unat (ws_buyback_amount one_player_event) = 0 \<and>
   unat (ws_prize_per_winner one_player_event) = 4 \<and>
   find (\<lambda>a. acc_key a = 1) [winner_account_1] = Some \<lparr>acc_key = 1, lamports = 0\<rparr> \<and>
   find (\<lambda>a. acc_key a = 1) [\<lparr>acc_key = 1, lamports = 4\<rparr>] = Some \<lparr>acc_key = 1, lamports = 4\<rparr> \<and>
   selectWinners [] ''g'' ts_one_player = (Inr ([ts_winner], Num 0), ts_settled) \<and>
   find (\<lambda>g. gameId g = ''g'') (gameStates ts_one_player) = Some ts_game \<and>
   prizePool ts_game = Num (rat_of_nat 5) \<and> (5::nat) * 90 < 2 ^ 53 \<and>
   0 < length (game_players ''g'' ts_one_player) \<and>
   length (game_players ''g'' ts_one_player) < 2 ^ 53 \<and>
   map w_prize [ts_winner] = [Num 4]"
  using settlement_value_split[of env_ok "[winner_account_1]" one_player_game
      one_player_event settled_game "[\<lparr>acc_key = 1, lamports = 4\<rparr>]"
      "[]" "''g''" ts_one_player "[ts_winner]" "Num 0" ts_settled ts_game 5]
  by (simp add: select_winners_settled selectWinners_ts_one_player players_one_player_game
      prize_pool_one_player_game game_players_ts_one_player find_game_ts_one_player
      prizePool_ts_game winners_settled_game)
     (simp add: one_player_event_def ts_winner_def env_ok_def winner_account_1_def)

text \<open>
  C3 as stated fails: with a pool of 5 the payout pool is 4 and the burn is 0, and the
  remaining unit is in neither.
\<close>

theorem settlement_conservation_counterexample:
  "select_winners env_ok [winner_account_1] one_player_game =
     (Inr one_player_event, settled_game, [\<lparr>acc_key = 1, lamports = 4\<rparr>]) \<and>
   unat (prize_pool one_player_game) = 5 \<and>
   unat (prize_pool one_player_game) * 90 div 100 = 4 \<and>
   length (ws_winners one_player_event) = 1 \<and>
   unat (ws_prize_per_winner one_player_event) = 4 \<and>
   unat (ws_buyback_amount one_player_event) = 0 \<and>
   unat (prize_pool one_player_game) * 90 div 100 + unat (ws_buyback_amount one_player_event)
     \<noteq> unat (prize_pool one_player_game)"
  by (simp add: select_winners_settled prize_pool_one_player_game)
     (simp add: one_player_event_def)

subsection \<open>What the ranking depends on\<close>

text \<open>
  C4, as amended. Settlement ranks the participants by their trading score alone, in
  descending order: the ranked list is a rearrangement of the stored player list in
  which no entry has a higher trading score than an entry before it, and the winners
  are its first \<open>\<lceil>n / 10\<rceil>\<close> entries (for \<open>n < 2^53\<close> players; on chain at least one), so
  that no participant left out has a higher trading score than a winner. Holdings,
  deposit speed and a random factor are not stored and play no part. On chain and in
  the backend alike, where the backend ranks the player rows in the order in which
  they were loaded.
\<close>

theorem ranking_by_trading_score:
  "(select_winners env accs gs = (Inr ev, gs', accs') \<and> length (players gs) < 2 ^ 53 \<longrightarrow>
      (let ranked = sort_by by_score_desc (players gs); k = (length (players gs) + 9) div 10
       in mset ranked = mset (players gs) \<and>
          sorted_wrt (\<lambda>a b. trading_score b \<le> trading_score a) ranked \<and>
          winners gs' = take k ranked \<and> length (winners gs') = k \<and> 0 < k \<and>
          ws_winners ev = map key (winners gs') \<and>
          (\<forall>w \<in> set (winners gs'). \<forall>p \<in> set (drop k ranked).
             trading_score p \<le> trading_score w))) \<and>
   (selectWinners io gid db = (Inr (ws, buyback), db') \<and>
      length (game_players gid db) < 2 ^ 53 \<longrightarrow>
      (let ranked = sort_by by_tradingScore_desc (game_players gid db);
           k = (length (game_players gid db) + 9) div 10
       in mset ranked = mset (game_players gid db) \<and>
          sorted_wrt (\<lambda>a b. tradingScore b \<le> tradingScore a) ranked \<and>
          map w_playerKey ws = map key_ts (take k ranked) \<and> length ws = k \<and>
          (\<forall>w \<in> set (take k ranked). \<forall>p \<in> set (drop k ranked).
             tradingScore p \<le> tradingScore w)))"
proof (intro conjI impI)
  assume a: "select_winners env accs gs = (Inr ev, gs', accs') \<and> length (players gs) < 2 ^ 53"
  then have ok: "select_winners env accs gs = (Inr ev, gs', accs')"
    and n: "length (players gs) < 2 ^ 53" by simp_all
  let ?s = "sort_by by_score_desc (players gs)"
  let ?k = "(length (players gs) + 9) div 10"
  have kc: "num_winners_of (length (players gs)) = ?k" by (rule num_winners_of_ceil[OF n])
  have w: "winners gs' = take ?k ?s" using select_winners_Inr(3)[OF ok] kc by simp
  have l: "length (winners gs') = ?k" by (simp add: w)
  have srt: "sorted_wrt (\<lambda>a b. trading_score b \<le> trading_score a) ?s"
    by (rule sorted_sort_by_score)
  have pos: "0 < ?k"
  proof (rule ccontr)
    assume "\<not> 0 < ?k"
    then have "(of_nat (num_winners_of (length (players gs))) :: u64) = 0" by (simp add: kc)
    then show False using select_winners_Inr(5)[OF ok] by simp
  qed
  have ev: "ws_winners ev = map key (winners gs')" using select_winners_Inr(4)[OF ok] w kc by simp
  have dom: "\<forall>w \<in> set (winners gs'). \<forall>p \<in> set (drop ?k ?s). trading_score p \<le> trading_score w"
    unfolding w by (rule sorted_wrt_take_drop[OF srt])
  show "let ranked = sort_by by_score_desc (players gs); k = (length (players gs) + 9) div 10
       in mset ranked = mset (players gs) \<and>
          sorted_wrt (\<lambda>a b. trading_score b \<le> trading_score a) ranked \<and>
          winners gs' = take k ranked \<and> length (winners gs') = k \<and> 0 < k \<and>
          ws_winners ev = map key (winners gs') \<and>
          (\<forall>w \<in> set (winners gs'). \<forall>p \<in> set (drop k ranked).
             trading_score p \<le> trading_score w)"
    unfolding Let_def using srt w l pos ev dom by (intro conjI) simp_all
next
  assume a: "selectWinners io gid db = (Inr (ws, buyback), db') \<and>
      length (game_players gid db) < 2 ^ 53"
  then have ok: "selectWinners io gid db = (Inr (ws, buyback), db')"
    and n: "length (game_players gid db) < 2 ^ 53" by simp_all
  let ?s = "sort_by by_tradingScore_desc (game_players gid db)"
  let ?k = "(length (game_players gid db) + 9) div 10"
  have kc: "num_winners_of (length (game_players gid db)) = ?k" by (rule num_winners_of_ceil[OF n])
  have keys: "map w_playerKey ws = map key_ts (take ?k ?s)"
    using selectWinners_keys(1)[OF ok] kc by simp
  have l: "length ws = ?k" using selectWinners_keys(2)[OF ok] kc by simp
  have srt: "sorted_wrt (\<lambda>a b. tradingScore b \<le> tradingScore a) ?s"
    by (rule sorted_sort_by_tradingScore)
  have dom: "\<forall>w \<in> set (take ?k ?s). \<forall>p \<in> set (drop ?k ?s). tradingScore p \<le> tradingScore w"
    by (rule sorted_wrt_take_drop[OF srt])
  show "let ranked = sort_by by_tradingScore_desc (game_players gid db);
           k = (length (game_players gid db) + 9) div 10
       in mset ranked = mset (game_players gid db) \<and>
          sorted_wrt (\<lambda>a b. tradingScore b \<le> tradingScore a) ranked \<and>
          map w_playerKey ws = map key_ts (take k ranked) \<and> length ws = k \<and>
          (\<forall>w \<in> set (take k ranked). \<forall>p \<in> set (drop k ranked).
             tradingScore p \<le> tradingScore w)"
    unfolding Let_def using srt keys l dom by (intro conjI) simp_all
qed

theorem ranking_by_trading_score_witness:
  "select_winners env_ok two_accounts ranked_game = (Inr two_event, ranked_settled, two_paid) \<and>
   length (players ranked_game) < 2 ^ 53 \<and>
   sort_by by_score_desc (players ranked_game) =
     [\<lparr>key = 2, deposit = 5, trading_score = 2, last_active = 7\<rparr>,
      \<lparr>key = 1, deposit = 5, trading_score = 1, last_active = 7\<rparr>] \<and>
   winners ranked_settled = [\<lparr>key = 2, deposit = 5, trading_score = 2, last_active = 7\<rparr>] \<and>
   ws_winners two_event = [2] \<and>
   selectWinners [] ''g'' ts_ranked = (Inr ([ts_winner_b], Num 1), ts_ranked_settled) \<and>
   length (game_players ''g'' ts_ranked) < 2 ^ 53 \<and>
   game_players ''g'' ts_ranked = [ts_player_a 1, ts_player_b 2] \<and>
   sort_by by_tradingScore_desc (game_players ''g'' ts_ranked) = [ts_player_b 2, ts_player_a 1] \<and>
   map w_playerKey [ts_winner_b] = [''b'']"
  using ranking_by_trading_score[of env_ok two_accounts ranked_game two_event ranked_settled
      two_paid "[]" "''g''" ts_ranked "[ts_winner_b]" "Num 1" ts_ranked_settled]
  by (simp add: select_winners_ranked selectWinners_ts_ranked winners_ranked_settled
      players_ranked_game game_players_ts_ranked by_score_desc_def by_tradingScore_desc_def
      ts_player_a_def ts_player_b_def)

text \<open>
  C4 as stated fails: with the composite score of the specification participant 1 (who
  holds the most) ranks above participant 2, yet the settlement selects participant 2,
  whose trading score is higher.
\<close>

theorem composite_ranking_counterexample:
  "players ranked_game =
     [\<lparr>key = 1, deposit = 5, trading_score = 1, last_active = 7\<rparr>,
      \<lparr>key = 2, deposit = 5, trading_score = 2, last_active = 7\<rparr>] \<and>
   spec_composite_of sample_signals
     \<lparr>key = 1, deposit = 5, trading_score = 1, last_active = 7\<rparr> = 4030 \<and>
   spec_composite_of sample_signals
     \<lparr>key = 2, deposit = 5, trading_score = 2, last_active = 7\<rparr> = 60 \<and>
   select_winners env_ok two_accounts ranked_game = (Inr two_event, ranked_settled, two_paid) \<and>
   winners ranked_settled = [\<lparr>key = 2, deposit = 5, trading_score = 2, last_active = 7\<rparr>] \<and>
   ws_winners two_event = [2]"
  by (simp add: players_ranked_game select_winners_ranked winners_ranked_settled)
     (simp add: spec_composite_of_def spec_composite_def sample_signals_def two_event_def)

subsection \<open>Ties and reproducibility\<close>

text \<open>
  C5, as amended. Settlement sorts the participants descending by trading score with
  a stable sort that compares scores only: in the ranked list no entry has a higher
  score than an entry before it, and the participants with any one score stand in the
  order they have in the stored player list (the order of first deposit); it is the
  stable sort of the player list by descending score. The winners are the first
  \<open>\<lceil>n / 10\<rceil>\<close> entries of the ranked list (for \<open>n < 2^53\<close> players), so among participants
  with the same score the ones stored first win, and the participant identity is not
  compared. The selection is a function of the player list: any two successful
  settlements over the same player list select the same winners in the same order.
  On chain and in the backend alike, where the backend's player list is the player
  rows in the order in which they were loaded.
\<close>

theorem stable_ranking:
  "(select_winners env accs gs = (Inr ev, gs', accs') \<and> length (players gs) < 2 ^ 53 \<longrightarrow>
      (let ranked = sort_by by_score_desc (players gs)
       in sorted_wrt (\<lambda>a b. trading_score b \<le> trading_score a) ranked \<and>
          (\<forall>s. filter (\<lambda>p. trading_score p = s) ranked =
                 filter (\<lambda>p. trading_score p = s) (players gs)) \<and>
          ranked = sort_key (\<lambda>p. - int (unat (trading_score p))) (players gs) \<and>
          winners gs' = take ((length (players gs) + 9) div 10) ranked \<and>
          ws_winners ev = map key (winners gs') \<and>
          prefix (filter (\<lambda>p. trading_score p = v) (winners gs'))
                 (filter (\<lambda>p. trading_score p = v) (players gs)) \<and>
          (select_winners env2 accs2 gs2 = (Inr ev2, gs2', accs2') \<and> players gs2 = players gs \<longrightarrow>
             winners gs2' = winners gs' \<and> ws_winners ev2 = ws_winners ev))) \<and>
   (selectWinners io gid db = (Inr (ws, buyback), db') \<and>
      length (game_players gid db) < 2 ^ 53 \<longrightarrow>
      (let ranked = sort_by by_tradingScore_desc (game_players gid db);
           top = take ((length (game_players gid db) + 9) div 10) ranked
       in sorted_wrt (\<lambda>a b. tradingScore b \<le> tradingScore a) ranked \<and>
          (\<forall>s. filter (\<lambda>p. tradingScore p = s) ranked =
                 filter (\<lambda>p. tradingScore p = s) (game_players gid db)) \<and>
          ranked = sort_key (\<lambda>p. - tradingScore p) (game_players gid db) \<and>
          map w_playerKey ws = map key_ts top \<and>
          prefix (filter (\<lambda>p. tradingScore p = t) top)
                 (filter (\<lambda>p. tradingScore p = t) (game_players gid db)) \<and>
          (selectWinners io2 gid db2 = (Inr (ws2, buyback2), db2') \<and>
             game_players gid db2 = game_players gid db \<longrightarrow>
             map w_playerKey ws2 = map w_playerKey ws)))"
proof (intro conjI impI)
  assume a: "select_winners env accs gs = (Inr ev, gs', accs') \<and> length (players gs) < 2 ^ 53"
  then have ok: "select_winners env accs gs = (Inr ev, gs', accs')"
    and n: "length (players gs) < 2 ^ 53" by simp_all
  let ?s = "sort_by by_score_desc (players gs)"
  let ?k = "(length (players gs) + 9) div 10"
  have kc: "num_winners_of (length (players gs)) = ?k" by (rule num_winners_of_ceil[OF n])
  have w: "winners gs' = take ?k ?s" using select_winners_Inr(3)[OF ok] kc by simp
  have ev: "ws_winners ev = map key (winners gs')" using select_winners_Inr(4)[OF ok] w kc by simp
  have "prefix (filter (\<lambda>p. trading_score p = v) (take ?k ?s))
               (filter (\<lambda>p. trading_score p = v) ?s)"
    by (rule prefix_filter_take)
  then have pre: "prefix (filter (\<lambda>p. trading_score p = v) (winners gs'))
             (filter (\<lambda>p. trading_score p = v) (players gs))"
    by (simp only: w sort_by_score_stable)
  have det: "winners gs2' = winners gs' \<and> ws_winners ev2 = ws_winners ev"
    if b: "select_winners env2 accs2 gs2 = (Inr ev2, gs2', accs2') \<and> players gs2 = players gs"
  proof -
    from b have ok2: "select_winners env2 accs2 gs2 = (Inr ev2, gs2', accs2')"
      and same: "players gs2 = players gs" by simp_all
    have "winners gs2' = winners gs'" using select_winners_Inr(3)[OF ok2] w kc same by simp
    moreover have "ws_winners ev2 = ws_winners ev"
      using select_winners_Inr(4)[OF ok2] select_winners_Inr(4)[OF ok] same by simp
    ultimately show ?thesis by simp
  qed
  show "let ranked = sort_by by_score_desc (players gs)
       in sorted_wrt (\<lambda>a b. trading_score b \<le> trading_score a) ranked \<and>
          (\<forall>s. filter (\<lambda>p. trading_score p = s) ranked =
                 filter (\<lambda>p. trading_score p = s) (players gs)) \<and>
          ranked = sort_key (\<lambda>p. - int (unat (trading_score p))) (players gs) \<and>
          winners gs' = take ((length (players gs) + 9) div 10) ranked \<and>
          ws_winners ev = map key (winners gs') \<and>
          prefix (filter (\<lambda>p. trading_score p = v) (winners gs'))
                 (filter (\<lambda>p. trading_score p = v) (players gs)) \<and>
          (select_winners env2 accs2 gs2 = (Inr ev2, gs2', accs2') \<and> players gs2 = players gs \<longrightarrow>
             winners gs2' = winners gs' \<and> ws_winners ev2 = ws_winners ev)"
    unfolding Let_def
  proof (intro conjI allI impI)
    show "sorted_wrt (\<lambda>a b. trading_score b \<le> trading_score a) ?s" by (rule sorted_sort_by_score)
    show "filter (\<lambda>p. trading_score p = s) ?s = filter (\<lambda>p. trading_score p = s) (players gs)" for s
      by (rule sort_by_score_stable)
    show "?s = sort_key (\<lambda>p. - int (unat (trading_score p))) (players gs)"
      by (rule sort_by_score_sort_key)
    show "winners gs' = take ?k ?s" by (rule w)
    show "ws_winners ev = map key (winners gs')" by (rule ev)
    show "prefix (filter (\<lambda>p. trading_score p = v) (winners gs'))
             (filter (\<lambda>p. trading_score p = v) (players gs))" by (rule pre)
    assume b: "select_winners env2 accs2 gs2 = (Inr ev2, gs2', accs2') \<and> players gs2 = players gs"
    show "winners gs2' = winners gs'" using det[OF b] by simp
    show "ws_winners ev2 = ws_winners ev" using det[OF b] by simp
  qed
next
  assume a: "selectWinners io gid db = (Inr (ws, buyback), db') \<and>
      length (game_players gid db) < 2 ^ 53"
  then have ok: "selectWinners io gid db = (Inr (ws, buyback), db')"
    and n: "length (game_players gid db) < 2 ^ 53" by simp_all
  let ?s = "sort_by by_tradingScore_desc (game_players gid db)"
  let ?k = "(length (game_players gid db) + 9) div 10"
  have kc: "num_winners_of (length (game_players gid db)) = ?k" by (rule num_winners_of_ceil[OF n])
  have keys: "map w_playerKey ws = map key_ts (take ?k ?s)"
    using selectWinners_keys(1)[OF ok] kc by simp
  have "prefix (filter (\<lambda>p. tradingScore p = t) (take ?k ?s))
               (filter (\<lambda>p. tradingScore p = t) ?s)"
    by (rule prefix_filter_take)
  then have pre: "prefix (filter (\<lambda>p. tradingScore p = t) (take ?k ?s))
             (filter (\<lambda>p. tradingScore p = t) (game_players gid db))"
    by (simp only: sort_by_tradingScore_stable)
  show "let ranked = sort_by by_tradingScore_desc (game_players gid db);
           top = take ((length (game_players gid db) + 9) div 10) ranked
       in sorted_wrt (\<lambda>a b. tradingScore b \<le> tradingScore a) ranked \<and>
          (\<forall>s. filter (\<lambda>p. tradingScore p = s) ranked =
                 filter (\<lambda>p. tradingScore p = s) (game_players gid db)) \<and>
          ranked = sort_key (\<lambda>p. - tradingScore p) (game_players gid db) \<and>
          map w_playerKey ws = map key_ts top \<and>
          prefix (filter (\<lambda>p. tradingScore p = t) top)
                 (filter (\<lambda>p. tradingScore p = t) (game_players gid db)) \<and>
          (selectWinners io2 gid db2 = (Inr (ws2, buyback2), db2') \<and>
             game_players gid db2 = game_players gid db \<longrightarrow>
             map w_playerKey ws2 = map w_playerKey ws)"
    unfolding Let_def
  proof (intro conjI allI impI)
    show "sorted_wrt (\<lambda>a b. tradingScore b \<le> tradingScore a) ?s"
      by (rule sorted_sort_by_tradingScore)
    show "filter (\<lambda>p. tradingScore p = s) ?s =
            filter (\<lambda>p. tradingScore p = s) (game_players gid db)" for s
      by (rule sort_by_tradingScore_stable)
    show "?s = sort_key (\<lambda>p. - tradingScore p) (game_players gid db)"
      by (rule sort_by_tradingScore_sort_key)
    show "map w_playerKey ws = map key_ts (take ?k ?s)" by (rule keys)
    show "prefix (filter (\<lambda>p. tradingScore p = t) (take ?k ?s))
             (filter (\<lambda>p. tradingScore p = t) (game_players gid db))" by (rule pre)
    assume b: "selectWinners io2 gid db2 = (Inr (ws2, buyback2), db2') \<and>
             game_players gid db2 = game_players gid db"
    then have ok2: "selectWinners io2 gid db2 = (Inr (ws2, buyback2), db2')"
      and same: "game_players gid db2 = game_players gid db" by simp_all
    show "map w_playerKey ws2 = map w_playerKey ws"
      using selectWinners_keys(1)[OF ok2] selectWinners_keys(1)[OF ok] same by simp
  qed
qed

theorem stable_ranking_witness:
  "select_winners env_ok two_accounts tied_game = (Inr two_event, tied_settled, two_paid) \<and>
   length (players tied_game) < 2 ^ 53 \<and>
   players tied_game =
     [\<lparr>key = 2, deposit = 5, trading_score = 5, last_active = 7\<rparr>,
      \<lparr>key = 1, deposit = 5, trading_score = 5, last_active = 7\<rparr>] \<and>
   winners tied_settled = [\<lparr>key = 2, deposit = 5, trading_score = 5, last_active = 7\<rparr>] \<and>
   selectWinners [] ''g'' ts_tied = (Inr ([ts_winner_b], Num 1), ts_tied_settled) \<and>
   length (game_players ''g'' ts_tied) < 2 ^ 53 \<and>
   game_players ''g'' ts_tied = [ts_player_b 5, ts_player_a 5] \<and>
   tradingScore (ts_player_b 5) = tradingScore (ts_player_a 5) \<and>
   map w_playerKey [ts_winner_b] = [''b'']"
  using stable_ranking[of env_ok two_accounts tied_game two_event tied_settled two_paid 5
      env_ok two_accounts tied_game two_event tied_settled two_paid
      "[]" "''g''" ts_tied "[ts_winner_b]" "Num 1" ts_tied_settled 5
      "[]" ts_tied "[ts_winner_b]" "Num 1" ts_tied_settled]
  by (simp add: select_winners_tied selectWinners_ts_tied winners_tied_settled
      players_tied_game game_players_ts_tied by_score_desc_def by_tradingScore_desc_def
      ts_player_a_def ts_player_b_def ts_winner_b_def)

text \<open>
  C5 as stated fails: participants 2 and 1 have the same score and participant 2
  deposited first; the one winner is participant 2, not the smaller identity 1.
\<close>

theorem identity_tie_break_counterexample:
  "players tied_game =
     [\<lparr>key = 2, deposit = 5, trading_score = 5, last_active = 7\<rparr>,
      \<lparr>key = 1, deposit = 5, trading_score = 5, last_active = 7\<rparr>] \<and>
   select_winners env_ok two_accounts tied_game = (Inr two_event, tied_settled, two_paid) \<and>
   winners tied_settled = [\<lparr>key = 2, deposit = 5, trading_score = 5, last_active = 7\<rparr>] \<and>
   ws_winners two_event = [2] \<and> (1::Pubkey) < 2"
  by (simp add: players_tied_game select_winners_tied winners_tied_settled)
     (simp add: two_event_def)

subsection \<open>Pool conservation\<close>

text \<open>
  C2, as amended. In every state the game account can reach, \<open>total_deposits\<close> is at most
  the exact sum of the participants' recorded deposits, and it equals that sum whenever
  the round is not settled (\<open>active\<close> is false). Every completed \<^verbatim>\<open>deposit\<close>, which the
  program accepts in a settled round as well, adds its amount to \<open>total_deposits\<close> and to
  the sum of the recorded deposits and leaves \<open>active\<close> as it is; a completed
  \<^verbatim>\<open>evaluate_trading_activity\<close> changes neither \<open>total_deposits\<close> nor any recorded deposit;
  a completed \<^verbatim>\<open>select_winners\<close>, possible only while \<open>active\<close> is false, sets
  \<open>total_deposits\<close> to 0 and \<open>active\<close> to true and leaves the participant records, deposits
  included, in place; a completed \<^verbatim>\<open>reset_game\<close>, possible only while \<open>active\<close> is true,
  removes every participant record and leaves \<open>total_deposits\<close> at 0 and \<open>active\<close> false.
\<close>

theorem pool_conserved_while_open:
  "(reachable gs \<longrightarrow>
      unat (total_deposits gs) \<le> sum_deposits gs \<and>
      (\<not> active gs \<longrightarrow> unat (total_deposits gs) = sum_deposits gs)) \<and>
   (deposit_ix env player amount gd = (Inr dev, gd') \<longrightarrow>
      unat (total_deposits gd') = unat (total_deposits gd) + unat amount \<and>
      sum_deposits gd' = sum_deposits gd + unat amount \<and> active gd' = active gd) \<and>
   (evaluate_trading_activity env scores ge = (Inr tev, ge') \<longrightarrow>
      total_deposits ge' = total_deposits ge \<and>
      map deposit (players ge') = map deposit (players ge) \<and>
      sum_deposits ge' = sum_deposits ge \<and> active ge' = active ge) \<and>
   (select_winners env accs gw = (Inr ev, gw', accs') \<longrightarrow>
      \<not> active gw \<and> total_deposits gw' = 0 \<and> players gw' = players gw \<and>
      sum_deposits gw' = sum_deposits gw \<and> active gw') \<and>
   (reset_game env gr = (Inr rsev, gr') \<longrightarrow>
      active gr \<and> players gr' = [] \<and> sum_deposits gr' = 0 \<and> total_deposits gr' = 0 \<and>
      \<not> active gr')"
proof (intro conjI impI)
  assume r: "reachable gs"
  show "unat (total_deposits gs) \<le> sum_deposits gs" using r by (rule reachable_pool_bound)
  assume "\<not> active gs"
  then show "unat (total_deposits gs) = sum_deposits gs"
    using reachable_open_conserved[OF r] by (simp add: pool_conserved_def)
next
  assume d: "deposit_ix env player amount gd = (Inr dev, gd')"
  show "unat (total_deposits gd') = unat (total_deposits gd) + unat amount"
    "sum_deposits gd' = sum_deposits gd + unat amount" "active gd' = active gd"
    by (rule deposit_ix_delta[OF d])+
next
  assume e: "evaluate_trading_activity env scores ge = (Inr tev, ge')"
  show "total_deposits ge' = total_deposits ge"
    "map deposit (players ge') = map deposit (players ge)"
    "sum_deposits ge' = sum_deposits ge" "active ge' = active ge"
    by (rule evaluate_Inr[OF e])+
next
  assume s: "select_winners env accs gw = (Inr ev, gw', accs')"
  show "\<not> active gw" by (rule select_winners_Inr(2)[OF s])
  show "total_deposits gw' = 0" "players gw' = players gw" "active gw'"
    using select_winners_Inr(3)[OF s] by simp_all
  then show "sum_deposits gw' = sum_deposits gw" by (simp add: sum_deposits_def)
next
  assume r: "reset_game env gr = (Inr rsev, gr')"
  show "active gr" "players gr' = []" "total_deposits gr' = 0" "\<not> active gr'"
    by (rule reset_game_Inr[OF r])+
  show "sum_deposits gr' = 0" using reset_game_Inr(2)[OF r] by (simp add: sum_deposits_def)
qed

theorem pool_conserved_while_open_witness:
  "reachable one_player_game \<and> \<not> active one_player_game \<and>
   unat (total_deposits one_player_game) = 5 \<and> sum_deposits one_player_game = 5 \<and>
   deposit_ix env_ok 3 4 settled_game =
     (Inr \<lparr>de_player = 3, de_amount = 4, de_timestamp = 7\<rparr>,
      \<lparr>total_deposits = 4, prize_pool = 4, active = True,
        players = [\<lparr>key = 1, deposit = 5, trading_score = 0, last_active = 7\<rparr>,
                   \<lparr>key = 3, deposit = 4, trading_score = 0, last_active = 7\<rparr>],
        winners = [\<lparr>key = 1, deposit = 5, trading_score = 0, last_active = 7\<rparr>],
        game_id = 99\<rparr>) \<and>
   evaluate_trading_activity env_ok [(1, 3)] one_player_game =
     (Inr \<lparr>te_game_id = 99, te_timestamp = 7\<rparr>,
      \<lparr>total_deposits = 5, prize_pool = 5, active = False,
        players = [\<lparr>key = 1, deposit = 5, trading_score = 3, last_active = 7\<rparr>],
        winners = [], game_id = 99\<rparr>) \<and>
   select_winners env_ok [winner_account_1] one_player_game =
     (Inr one_player_event, settled_game, [\<lparr>acc_key = 1, lamports = 4\<rparr>]) \<and>
   total_deposits settled_game = 0 \<and> players settled_game = players one_player_game \<and>
   sum_deposits settled_game = 5 \<and>
   reset_game env_ok settled_game =
     (Inr \<lparr>gr_game_id = 99, gr_timestamp = 7\<rparr>,
      \<lparr>total_deposits = 0, prize_pool = 0, active = False, players = [], winners = [],
        game_id = 99\<rparr>)"
  using pool_conserved_while_open[of one_player_game env_ok 3 4 settled_game
      "\<lparr>de_player = 3, de_amount = 4, de_timestamp = 7\<rparr>"
      "\<lparr>total_deposits = 4, prize_pool = 4, active = True,
        players = [\<lparr>key = 1, deposit = 5, trading_score = 0, last_active = 7\<rparr>,
                   \<lparr>key = 3, deposit = 4, trading_score = 0, last_active = 7\<rparr>],
        winners = [\<lparr>key = 1, deposit = 5, trading_score = 0, last_active = 7\<rparr>],
        game_id = 99\<rparr>"
      "[(1, 3)]" one_player_game "\<lparr>te_game_id = 99, te_timestamp = 7\<rparr>"
      "\<lparr>total_deposits = 5, prize_pool = 5, active = False,
        players = [\<lparr>key = 1, deposit = 5, trading_score = 3, last_active = 7\<rparr>],
        winners = [], game_id = 99\<rparr>"
      "[winner_account_1]" one_player_game one_player_event settled_game
      "[\<lparr>acc_key = 1, lamports = 4\<rparr>]"
      settled_game "\<lparr>gr_game_id = 99, gr_timestamp = 7\<rparr>"
      "\<lparr>total_deposits = 0, prize_pool = 0, active = False, players = [], winners = [],
        game_id = 99\<rparr>"]
  by (simp add: select_winners_settled reachable_one_player_game one_player_game_fields
      settled_game_fields deposit_settled_game reset_settled_game evaluate_one_player_game)

text \<open>
  C2 as stated fails after a settlement: the settled round is reachable, its pool total
  is 0 and the deposits recorded in it still sum to 5.
\<close>

theorem pool_conservation_counterexample:
  "reachable settled_game \<and> unat (total_deposits settled_game) = 0 \<and>
   sum_deposits settled_game = 5 \<and> \<not> pool_conserved settled_game"
  by (simp add: reachable_settled_game pool_conserved_def settled_game_fields)

end
